theory Spec2Isabelle
  imports Complex_Main "HOL-Library.Product_Lexorder"
begin

section \<open>FutureCrop price prediction service (backend/app.py)\<close>

text \<open>
  Conventions of the embedding.
  \<^item> Python \<open>str\<close> is \<open>string\<close>; \<open>lower\<close> and \<open>strip\<close> act on the ASCII range.
  \<^item> Python \<open>float\<close> is \<open>real\<close>: arithmetic is exact, there is no NaN and no infinity.
  \<^item> The module global \<open>MOCK_DATA\<close>, the clock \<open>datetime.now()\<close> and the draws of
    the \<open>random\<close> module are explicit arguments.
  \<^item> Exceptions are values of a sum type, \<open>Inl\<close> carrying the exception.
\<close>

subsection \<open>Strings\<close>

definition upper_lower_table :: "(char \<times> char) list" where
  "upper_lower_table = zip ''ABCDEFGHIJKLMNOPQRSTUVWXYZ'' ''abcdefghijklmnopqrstuvwxyz''"

definition lower_char :: "char \<Rightarrow> char" where
  "lower_char c = (case map_of upper_lower_table c of Some d \<Rightarrow> d | None \<Rightarrow> c)"

definition lower :: "string \<Rightarrow> string" where
  "lower s = map lower_char s"

text \<open>\<open>x in c\<close> on strings: \<open>x\<close> occurs in \<open>c\<close> as a contiguous substring.\<close>

fun starts_with :: "string \<Rightarrow> string \<Rightarrow> bool" where
  "starts_with [] s = True"
| "starts_with (a # x) [] = False"
| "starts_with (a # x) (b # s) = (a = b \<and> starts_with x s)"

fun str_in :: "string \<Rightarrow> string \<Rightarrow> bool" where
  "str_in x [] = (x = [])"
| "str_in x (b # s) = (starts_with x (b # s) \<or> str_in x s)"

subsection \<open>The predictor: \<open>simple_predict\<close>\<close>

definition low_vol :: "string list" where
  "low_vol = [''rice'', ''wheat'', ''maize'', ''paddy'']"

definition med_vol :: "string list" where
  "med_vol = [''onion'', ''tomato'', ''potato'', ''capsicum'', ''brinjal'']"

definition high_vol :: "string list" where
  "high_vol = [''tomato'', ''onion'']"

text \<open>The \<open>if/elif/elif\<close> chain that sets \<open>vol\<close>, default 0.05.\<close>

definition volatility :: "string \<Rightarrow> real" where
  "volatility crop =
     (let c = lower crop in
      if list_ex (\<lambda>x. str_in x c) low_vol then 0.02
      else if list_ex (\<lambda>x. str_in x c) med_vol then 0.06
      else if list_ex (\<lambda>x. str_in x c) high_vol then 0.12
      else 0.05)"

text \<open>
  Python's \<open>round(x, 2)\<close>: the nearest multiple of 0.01, a tie going to the even one.
\<close>

definition round_half_even :: "real \<Rightarrow> int" where
  "round_half_even y =
     (let f = \<lfloor>y\<rfloor>; d = y - of_int f in
      if d < 1 / 2 then f
      else if 1 / 2 < d then f + 1
      else if even f then f else f + 1)"

definition round2 :: "real \<Rightarrow> real" where
  "round2 x = of_int (round_half_even (x * 100)) / 100"

text \<open>
  The random walk. \<open>random.gauss(0, vol)\<close> returns \<open>0 + z * vol\<close> for a standard normal
  variate \<open>z\<close>; the variates drawn by the successive iterations are the argument \<open>zs\<close>
  (\<open>zs k\<close> is the draw of iteration \<open>k\<close>). \<open>walk vol zs k n price\<close> runs iterations
  \<open>k, k + 1, ..., k + n - 1\<close>.
\<close>

fun walk :: "real \<Rightarrow> (nat \<Rightarrow> real) \<Rightarrow> nat \<Rightarrow> nat \<Rightarrow> real \<Rightarrow> real" where
  "walk vol zs k 0 price = price"
| "walk vol zs k (Suc n) price =
     (let change_pct = 0 + zs k * vol
      in walk vol zs (Suc k) n (max 0.01 (price * (1 + change_pct))))"

definition simple_predict :: "(nat \<Rightarrow> real) \<Rightarrow> real \<Rightarrow> int \<Rightarrow> string \<Rightarrow> real" where
  "simple_predict zs current_price months_ahead crop =
     (let vol = volatility crop;
          price = walk vol zs 0 (nat months_ahead) current_price
      in round2 (price * (1 + 0.01 * of_int months_ahead)))"

subsection \<open>Exceptions\<close>

datatype py_error = ValueError | AttributeError | StatisticsError

subsection \<open>\<open>datetime.strptime(s, "%Y-%m-%d")\<close>\<close>

text \<open>
  The standard library turns the format into the regular expression
  \<^verbatim>\<open>(?P<Y>\d\d\d\d)-(?P<m>1[0-2]|0[1-9]|[1-9])-(?P<d>3[0-1]|[1-2]\d|0[1-9]|[1-9]| [1-9])\<close>,
  matches it at the start of the input, raises \<open>ValueError\<close> when there is no match or when
  input remains after the match, and then builds the date, which raises \<open>ValueError\<close> for
  year 0 and for a day beyond the end of the month. A group is modelled by the list of its
  matches at the head of the input, in the order in which the alternatives are tried, each
  with the rest of the input; concatenation is the bind of the list monad, so the head of
  the resulting list is the match that the backtracking engine reports.
\<close>

definition digit_table :: "(char \<times> nat) list" where
  "digit_table = zip ''0123456789'' [0, 1, 2, 3, 4, 5, 6, 7, 8, 9]"

definition digit_val :: "char \<Rightarrow> nat option" where
  "digit_val c = map_of digit_table c"

fun one_digit :: "nat \<Rightarrow> nat \<Rightarrow> string \<Rightarrow> (nat \<times> string) list" where
  "one_digit lo hi [] = []"
| "one_digit lo hi (a # r) =
     (case digit_val a of
        Some x \<Rightarrow> if lo \<le> x \<and> x \<le> hi then [(x, r)] else []
      | None \<Rightarrow> [])"

definition two_digits ::
  "nat \<Rightarrow> nat \<Rightarrow> nat \<Rightarrow> nat \<Rightarrow> string \<Rightarrow> (nat \<times> string) list" where
  "two_digits alo ahi blo bhi s =
     List.bind (one_digit alo ahi s) (\<lambda>(x, r).
     List.bind (one_digit blo bhi r) (\<lambda>(y, r'). [(10 * x + y, r')]))"

definition literal :: "char \<Rightarrow> string \<Rightarrow> string list" where
  "literal c s = (case s of [] \<Rightarrow> [] | a # r \<Rightarrow> if a = c then [r] else [])"

definition group_Y :: "string \<Rightarrow> (nat \<times> string) list" where
  "group_Y s =
     List.bind (two_digits 0 9 0 9 s) (\<lambda>(hi, r).
     List.bind (two_digits 0 9 0 9 r) (\<lambda>(lo, r'). [(100 * hi + lo, r')]))"

definition group_m :: "string \<Rightarrow> (nat \<times> string) list" where
  "group_m s = two_digits 1 1 0 2 s @ two_digits 0 0 1 9 s @ one_digit 1 9 s"

definition group_d :: "string \<Rightarrow> (nat \<times> string) list" where
  "group_d s =
     two_digits 3 3 0 1 s @ two_digits 1 2 0 9 s @ two_digits 0 0 1 9 s @ one_digit 1 9 s
     @ List.bind (literal (CHR '' '') s) (one_digit 1 9)"

type_synonym datetime = "nat \<times> nat \<times> nat"
  \<comment> \<open>year, month, day; the time of day is midnight for this format. Dates compare
      lexicographically, as \<open>datetime\<close> objects do.\<close>

definition format_regex_match :: "string \<Rightarrow> (datetime \<times> string) list" where
  "format_regex_match s =
     List.bind (group_Y s) (\<lambda>(y, r1).
     List.bind (literal (CHR ''-'') r1) (\<lambda>r2.
     List.bind (group_m r2) (\<lambda>(m, r3).
     List.bind (literal (CHR ''-'') r3) (\<lambda>r4.
     List.bind (group_d r4) (\<lambda>(d, r5). [((y, m, d), r5)])))))"

definition is_leap :: "nat \<Rightarrow> bool" where
  "is_leap y = (y mod 4 = 0 \<and> (y mod 100 \<noteq> 0 \<or> y mod 400 = 0))"

definition days_in_month :: "nat \<Rightarrow> nat \<Rightarrow> nat" where
  "days_in_month y m =
     (if m = 2 then (if is_leap y then 29 else 28)
      else if m \<in> {4, 6, 9, 11} then 30 else 31)"

definition strptime :: "string \<Rightarrow> py_error + datetime" where
  "strptime s =
     (case format_regex_match s of
        [] \<Rightarrow> Inl ValueError
      | ((y, m, d), rest) # _ \<Rightarrow>
          if rest \<noteq> [] then Inl ValueError
          else if y < 1 \<or> days_in_month y m < d then Inl ValueError
          else Inr (y, m, d))"

subsection \<open>The price finder: \<open>find_recent_price\<close>\<close>

record row =
  state :: string
  district :: string
  market :: string
  crop :: string
  date :: string
  price :: real
  unit :: string

definition matches :: "string \<Rightarrow> string \<Rightarrow> string \<Rightarrow> string \<Rightarrow> row \<Rightarrow> bool" where
  "matches = (\<lambda>state district crop market r.
      if lower (row.crop r) \<noteq> lower crop then False
      else if state \<noteq> [] \<and> lower (row.state r) \<noteq> lower state then False
      else if district \<noteq> [] \<and> row.district r \<noteq> []
              \<and> lower (row.district r) \<noteq> lower district then False
      else if market \<noteq> [] \<and> row.market r \<noteq> []
              \<and> lower (row.market r) \<noteq> lower market then False
      else True)"
  \<comment> \<open>The closure \<open>matches(row)\<close> with its captured variables as arguments.\<close>

text \<open>Lines 103 to 106: the filtered candidates, relaxed to the crop alone when empty.\<close>

definition candidates_for ::
  "row list \<Rightarrow> string \<Rightarrow> string \<Rightarrow> string \<Rightarrow> string \<Rightarrow> row list" where
  "candidates_for = (\<lambda>MOCK_DATA state district crop market.
      let candidates = filter (matches state district crop market) MOCK_DATA
      in if candidates = []
         then filter (\<lambda>r. lower (row.crop r) = lower crop) MOCK_DATA
         else candidates)"

fun with_dates_of :: "row list \<Rightarrow> (datetime \<times> row) list" where
  "with_dates_of [] = []"
| "with_dates_of (r # rs) =
     (case strptime (row.date r) of
        Inr d \<Rightarrow> (d, r) # with_dates_of rs
      | Inl _ \<Rightarrow> with_dates_of rs)"

text \<open>
  \<open>list.sort(key=lambda x: x[0], reverse=True)\<close>: the sort is stable, and with
  \<open>reverse=True\<close> the list is reversed, sorted and reversed again, so that elements with
  equal keys keep their order.
\<close>

definition sort_reverse :: "(datetime \<times> row) list \<Rightarrow> (datetime \<times> row) list" where
  "sort_reverse xs = rev (sort_key fst (rev xs))"

text \<open>\<open>statistics.median\<close>.\<close>

definition median :: "real list \<Rightarrow> py_error + real" where
  "median xs =
     (let data = sort xs; n = length data in
      if n = 0 then Inl StatisticsError
      else if n mod 2 = 1 then Inr (data ! (n div 2))
      else (let i = n div 2 in Inr ((data ! (i - 1) + data ! i) / 2)))"

text \<open>Lines 107 to 127: the choice among the candidates.\<close>

definition select_record :: "row list \<Rightarrow> py_error + row option" where
  "select_record candidates =
     (case candidates of
        [] \<Rightarrow> Inr None
      | first # _ \<Rightarrow>
          (case sort_reverse (with_dates_of candidates) of
             (d, r) # _ \<Rightarrow> Inr (Some r)
           | [] \<Rightarrow>
               (let prices = filter (\<lambda>p. 0 < p) (map row.price candidates) in
                if prices \<noteq> [] then
                  (case median prices of
                     Inl e \<Rightarrow> Inl e
                   | Inr med \<Rightarrow> Inr (Some (first\<lparr>price := med\<rparr>)))
                else Inr None)))"

definition find_recent_price ::
  "row list \<Rightarrow> string \<Rightarrow> string \<Rightarrow> string \<Rightarrow> string \<Rightarrow> py_error + row option" where
  "find_recent_price = (\<lambda>MOCK_DATA state district crop market.
      if MOCK_DATA = [] then Inr None
      else select_record (candidates_for MOCK_DATA state district crop market))"

subsection \<open>The dataset loader: \<open>load_mock_data\<close>\<close>

text \<open>
  The file is given as the rows that \<open>csv.reader\<close> yields for it (each a list of fields),
  or \<open>None\<close> when the path does not exist. \<open>csv.DictReader\<close> takes the first row as the
  field names, skips empty rows, and maps a field name that a short row has no value for to
  \<open>None\<close> (its \<open>restval\<close>). The surplus fields of a long row go under the key \<open>None\<close>,
  which the loader never reads; that entry is left out.
\<close>

datatype cell = Str string | PyNone

type_synonym csv_dict = "string \<rightharpoonup> cell"

definition dict_row :: "string list \<Rightarrow> string list \<Rightarrow> csv_dict" where
  "dict_row fieldnames r =
     (let d = fold (\<lambda>(k, v) d. d(k \<mapsto> Str v)) (zip fieldnames r) Map.empty;
          lf = length fieldnames; lr = length r
      in if lr < lf then fold (\<lambda>key d. d(key \<mapsto> PyNone)) (drop lr fieldnames) d else d)"

fun DictReader :: "string list list \<Rightarrow> csv_dict list" where
  "DictReader [] = []"
| "DictReader (fieldnames # rows) = map (dict_row fieldnames) (filter (\<lambda>r. r \<noteq> []) rows)"

definition whitespace :: "char list" where
  "whitespace = [CHR '' '', CHR 0x09, CHR 0x0A, CHR 0x0B, CHR 0x0C, CHR 0x0D,
                 CHR 0x1C, CHR 0x1D, CHR 0x1E, CHR 0x1F]"

definition strip :: "string \<Rightarrow> string" where
  "strip s =
     rev (dropWhile (\<lambda>c. c \<in> set whitespace) (rev (dropWhile (\<lambda>c. c \<in> set whitespace) s)))"

text \<open>\<open>row.get(key, dflt).strip()\<close>: calling \<open>strip\<close> on \<open>None\<close> raises.\<close>

definition get_strip :: "csv_dict \<Rightarrow> string \<Rightarrow> string \<Rightarrow> py_error + string" where
  "get_strip d key dflt =
     (case d key of
        None \<Rightarrow> Inr (strip dflt)
      | Some (Str s) \<Rightarrow> Inr (strip s)
      | Some PyNone \<Rightarrow> Inl AttributeError)"

text \<open>
  \<open>float(row.get("price") or 0)\<close> under \<open>try/except\<close>. The builtin \<open>float\<close> on a string
  is the argument \<open>float\<close>, \<open>None\<close> standing for its \<open>ValueError\<close>.
\<close>

definition row_price :: "(string \<Rightarrow> real option) \<Rightarrow> csv_dict \<Rightarrow> real" where
  "row_price float d =
     (case d ''price'' of
        None \<Rightarrow> 0
      | Some PyNone \<Rightarrow> 0
      | Some (Str s) \<Rightarrow>
          if s = [] then 0 else (case float s of Some x \<Rightarrow> x | None \<Rightarrow> 0.0))"

definition bind_err :: "'e + 'a \<Rightarrow> ('a \<Rightarrow> 'e + 'b) \<Rightarrow> 'e + 'b" where
  "bind_err m f = (case m of Inl e \<Rightarrow> Inl e | Inr x \<Rightarrow> f x)"

definition load_row :: "(string \<Rightarrow> real option) \<Rightarrow> csv_dict \<Rightarrow> py_error + row" where
  "load_row float d =
     (let row_price = row_price float d in
      bind_err (get_strip d ''state'' []) (\<lambda>s.
      bind_err (get_strip d ''district'' []) (\<lambda>di.
      bind_err (get_strip d ''market'' []) (\<lambda>m.
      bind_err (get_strip d ''crop'' []) (\<lambda>c.
      bind_err (get_strip d ''date'' []) (\<lambda>da.
      bind_err (get_strip d ''unit'' ''kg'') (\<lambda>u.
      Inr \<lparr>state = s, district = di, market = m, crop = c, date = da,
           price = row_price, unit = (if u = [] then ''kg'' else u)\<rparr>)))))))"

fun load_rows :: "(string \<Rightarrow> real option) \<Rightarrow> csv_dict list \<Rightarrow> py_error + row list" where
  "load_rows float [] = Inr []"
| "load_rows float (d # ds) =
     bind_err (load_row float d) (\<lambda>r.
     bind_err (load_rows float ds) (\<lambda>data. Inr (r # data)))"

definition load_mock_data ::
  "(string \<Rightarrow> real option) \<Rightarrow> string list list option \<Rightarrow> py_error + row list" where
  "load_mock_data float csv_file =
     (case csv_file of
        None \<Rightarrow> Inr []
      | Some rows \<Rightarrow> load_rows float (DictReader rows))"

subsection \<open>The endpoint: \<open>predict\<close>\<close>

record PredictRequest =
  state :: string
  district :: "string option"
  market :: "string option"
  crop :: string
  month :: string

record PredictResponse =
  state :: string
  district :: "string option"
  market :: "string option"
  crop :: string
  month :: string
  unit :: string
  currentPrice :: real
  predictedPrice :: real
  method_tag :: string  \<comment> \<open>the field \<open>method\<close> of the source\<close>

datatype http_error = HTTPException nat string | Unhandled py_error

definition month_to_date :: "string \<Rightarrow> py_error + datetime" where
  "month_to_date ym =
     (case strptime (ym @ ''-01'') of Inr d \<Rightarrow> Inr d | Inl _ \<Rightarrow> Inl ValueError)"

definition base_map :: "(string \<times> real) list" where
  "base_map =
     [(''tomato'', 18.0), (''onion'', 22.0), (''potato'', 15.0),
      (''rice'', 30.0), (''wheat'', 25.0), (''maize'', 20.0),
      (''banana'', 30.0), (''mango'', 50.0)]"

text \<open>\<open>x or ""\<close> for an optional string.\<close>

definition or_empty :: "string option \<Rightarrow> string" where
  "or_empty x = (case x of None \<Rightarrow> [] | Some s \<Rightarrow> s)"

text \<open>
  Lines 178 to 191: the current price, unit and method. \<open>u\<close> is the value that
  \<open>random.uniform(10, 40)\<close> draws.
\<close>

definition resolve_price :: "real \<Rightarrow> string \<Rightarrow> row option \<Rightarrow> real \<times> string \<times> string" where
  "resolve_price u req_crop rec =
     (let synthetic =
            ((case map_of base_map (lower req_crop) of Some p \<Rightarrow> p | None \<Rightarrow> u),
             ''kg'', ''synthetic'')
      in case rec of
           None \<Rightarrow> synthetic
         | Some r \<Rightarrow>
             if 0 < row.price r
             then (row.price r, (if row.unit r = [] then ''kg'' else row.unit r), ''mock-data'')
             else synthetic)"

text \<open>
  \<open>now\<close> is the value of \<open>datetime.now()\<close>, \<open>u\<close> the uniform draw and \<open>zs\<close> the normal
  variates of the walk. An exception other than the month's \<open>ValueError\<close> is not caught by
  the handler (\<open>Unhandled\<close>).
\<close>

definition predict ::
  "row list \<Rightarrow> datetime \<Rightarrow> real \<Rightarrow> (nat \<Rightarrow> real) \<Rightarrow> PredictRequest
   \<Rightarrow> http_error + PredictResponse" where
  "predict MOCK_DATA now u zs req =
     (case month_to_date (PredictRequest.month req) of
        Inl _ \<Rightarrow> Inl (HTTPException 400 ''month must be in YYYY-MM format'')
      | Inr target_date \<Rightarrow>
          (let months_ahead =
                 (int (fst target_date) - int (fst now)) * 12
                 + (int (fst (snd target_date)) - int (fst (snd now)));
               months_ahead = (if months_ahead < 0 then 0 else months_ahead)
           in case find_recent_price MOCK_DATA (PredictRequest.state req)
                     (or_empty (PredictRequest.district req)) (PredictRequest.crop req)
                     (or_empty (PredictRequest.market req)) of
                Inl e \<Rightarrow> Inl (Unhandled e)
              | Inr rec \<Rightarrow>
                  (let (current_price, unit, method) =
                         resolve_price u (PredictRequest.crop req) rec
                   in  (let predicted_price =
                              simple_predict zs current_price months_ahead
                                (PredictRequest.crop req)
                        in Inr \<lparr>PredictResponse.state = PredictRequest.state req,
                                district = PredictRequest.district req,
                                market = PredictRequest.market req,
                                crop = PredictRequest.crop req,
                                month = PredictRequest.month req,
                                unit = unit,
                                currentPrice = round2 current_price,
                                predictedPrice = round2 predicted_price,
                                method_tag = method\<rparr>))))"

text \<open>The header line of the expected CSV format.\<close>

definition header :: "string list" where
  "header = [''state'', ''district'', ''market'', ''crop'', ''date'', ''price'', ''unit'']"

text \<open>
  The statistical median, as the specification uses the word: a value with at least half of
  the data at or below it and at least half at or above it.
\<close>

definition is_statistical_median :: "real \<Rightarrow> real list \<Rightarrow> bool" where
  "is_statistical_median m xs =
     (length xs \<le> 2 * length (filter (\<lambda>x. x \<le> m) xs)
      \<and> length xs \<le> 2 * length (filter (\<lambda>x. m \<le> x) xs))"

text \<open>Lines 171 to 173 of \<open>predict\<close>: the clamped month offset.\<close>

definition months_ahead_of :: "datetime \<Rightarrow> datetime \<Rightarrow> int" where
  "months_ahead_of target now =
     (let months_ahead = (int (fst target) - int (fst now)) * 12
                         + (int (fst (snd target)) - int (fst (snd now)))
      in if months_ahead < 0 then 0 else months_ahead)"

text \<open>
  Month strings. \<open>year_value\<close> reads four decimal digits; \<open>month_value\<close> reads a month
  number written as \<open>1\<close> to \<open>9\<close>, \<open>01\<close> to \<open>09\<close> or \<open>10\<close> to \<open>12\<close>.
  \<open>is_YYYY_MM\<close> is the format as the specification words it: four digits, a hyphen and a
  two-digit month. \<open>accepted_month\<close> describes the strings that \<open>month_to_date\<close> turns
  out to accept: a year other than 0000, a hyphen, and a month number of one or two digits.
\<close>

definition year_value :: "char \<Rightarrow> char \<Rightarrow> char \<Rightarrow> char \<Rightarrow> nat option" where
  "year_value a b c d =
     (case (digit_val a, digit_val b, digit_val c, digit_val d) of
        (Some w, Some x, Some y, Some z) \<Rightarrow> Some (1000 * w + 100 * x + 10 * y + z)
      | _ \<Rightarrow> None)"

definition month_value :: "string \<Rightarrow> nat option" where
  "month_value ms =
     (case ms of
        [f] \<Rightarrow> (case digit_val f of
                 Some x \<Rightarrow> if 1 \<le> x then Some x else None
               | None \<Rightarrow> None)
      | [f, g] \<Rightarrow> (case (digit_val f, digit_val g) of
                 (Some x, Some y) \<Rightarrow>
                    if (x = 1 \<and> y \<le> 2) \<or> (x = 0 \<and> 1 \<le> y) then Some (10 * x + y) else None
               | _ \<Rightarrow> None)
      | _ \<Rightarrow> None)"

definition accepted_month :: "string \<Rightarrow> bool" where
  "accepted_month s =
     (case s of
        a # b # c # d # e # ms \<Rightarrow>
          (case year_value a b c d of Some y \<Rightarrow> 1 \<le> y | None \<Rightarrow> False)
          \<and> e = CHR ''-'' \<and> month_value ms \<noteq> None
      | _ \<Rightarrow> False)"

definition is_YYYY_MM :: "string \<Rightarrow> bool" where
  "is_YYYY_MM s =
     (case s of
        a # b # c # d # e # ms \<Rightarrow>
          year_value a b c d \<noteq> None \<and> e = CHR ''-'' \<and> length ms = 2 \<and> month_value ms \<noteq> None
      | _ \<Rightarrow> False)"

section \<open>Properties\<close>

subsection \<open>Strings\<close>

lemmas lower_simps = lower_def lower_char_def upper_lower_table_def

lemma starts_with_iff: "starts_with x s \<longleftrightarrow> (\<exists>q. s = x @ q)"
  by (induction x s rule: starts_with.induct) auto

lemma str_in_iff: "str_in x s \<longleftrightarrow> (\<exists>p q. s = p @ x @ q)"
proof (induction s)
  case Nil
  then show ?case by simp
next
  case (Cons b s)
  show ?case
  proof
    assume "str_in x (b # s)"
    then consider "starts_with x (b # s)" | "str_in x s" by auto
    then show "\<exists>p q. b # s = p @ x @ q"
    proof cases
      case 1
      then obtain q where "b # s = x @ q" using starts_with_iff by blast
      then have "b # s = [] @ x @ q" by simp
      then show ?thesis by blast
    next
      case 2
      then obtain p q where "s = p @ x @ q" using Cons.IH by blast
      then have "b # s = (b # p) @ x @ q" by simp
      then show ?thesis by blast
    qed
  next
    assume "\<exists>p q. b # s = p @ x @ q"
    then obtain p q where pq: "b # s = p @ x @ q" by blast
    show "str_in x (b # s)"
    proof (cases p)
      case Nil
      then have "starts_with x (b # s)" using pq starts_with_iff by auto
      then show ?thesis by simp
    next
      case (Cons a p')
      then have "s = p' @ x @ q" using pq by simp
      then have "str_in x s" using Cons.IH by blast
      then show ?thesis by simp
    qed
  qed
qed

lemma lower_idem: "lower (lower s) = lower s"
proof -
  have "lower_char (lower_char c) = lower_char c" for c
    unfolding lower_char_def upper_lower_table_def
    by (simp split: option.splits if_splits)
  then show ?thesis by (simp add: lower_def)
qed

lemma lower_Nil_iff: "lower s = [] \<longleftrightarrow> s = []"
  by (simp add: lower_def)

subsection \<open>Volatility categories\<close>

lemma high_vol_in_med_vol:
  "list_ex (\<lambda>x. str_in x c) high_vol \<Longrightarrow> list_ex (\<lambda>x. str_in x c) med_vol"
  unfolding high_vol_def med_vol_def by (simp del: str_in.simps) blast

text \<open>
  C3. The volatility coefficient is chosen by substring match against the word lists in the
  order low (0.02), medium (0.06), high (0.12), default 0.05; since both words of the high
  list are in the medium list, 0.12 is never chosen. The coefficient is the one that
  \<open>simple_predict\<close> hands to its random walk.
\<close>

theorem volatility_high_unreachable:
  "volatility cr =
     (if list_ex (\<lambda>x. str_in x (lower cr)) [''rice'', ''wheat'', ''maize'', ''paddy''] then 0.02
      else if list_ex (\<lambda>x. str_in x (lower cr))
                [''onion'', ''tomato'', ''potato'', ''capsicum'', ''brinjal''] then 0.06
      else if list_ex (\<lambda>x. str_in x (lower cr)) [''tomato'', ''onion''] then 0.12
      else 0.05)
   \<and> volatility cr \<noteq> 0.12
   \<and> simple_predict zs p m cr
       = round2 (walk (volatility cr) zs 0 (nat m) p * (1 + 0.01 * of_int m))"
proof -
  have a: "volatility cr =
     (if list_ex (\<lambda>x. str_in x (lower cr)) [''rice'', ''wheat'', ''maize'', ''paddy''] then 0.02
      else if list_ex (\<lambda>x. str_in x (lower cr))
                [''onion'', ''tomato'', ''potato'', ''capsicum'', ''brinjal''] then 0.06
      else if list_ex (\<lambda>x. str_in x (lower cr)) [''tomato'', ''onion''] then 0.12
      else 0.05)"
    unfolding volatility_def low_vol_def med_vol_def high_vol_def Let_def by (rule refl)
  have b: "volatility cr \<noteq> 0.12"
    using high_vol_in_med_vol [of "lower cr"]
    unfolding volatility_def Let_def by auto
  have c: "simple_predict zs p m cr
       = round2 (walk (volatility cr) zs 0 (nat m) p * (1 + 0.01 * of_int m))"
    by (simp add: simple_predict_def)
  from a b c show ?thesis by blast
qed

theorem volatility_high_unreachable_witness:
  "volatility ''Cherry TOMATO'' = 0.06 \<and> volatility ''Paddy (onion field)'' = 0.02
   \<and> volatility ''Mango'' = 0.05"
  using volatility_high_unreachable [of "''Cherry TOMATO''"]
        volatility_high_unreachable [of "''Paddy (onion field)''"]
        volatility_high_unreachable [of "''Mango''"]
  by (simp add: lower_simps)

subsection \<open>The filter of the price finder\<close>

text \<open>
  C6. In the primary filter the crop, and the state when one is given, are compared after
  lower-casing both sides, so the comparison ignores case; a district or market excludes a
  row only when both the request value and the row's field are non-empty, so a row with a
  blank district (market) is never excluded by the district (market) of the request.
\<close>

theorem matches_filter_policy:
  "matches st di cr mk r =
     (lower (row.crop r) = lower cr
      \<and> (st = [] \<or> lower (row.state r) = lower st)
      \<and> (di = [] \<or> row.district r = [] \<or> lower (row.district r) = lower di)
      \<and> (mk = [] \<or> row.market r = [] \<or> lower (row.market r) = lower mk))
   \<and> matches st di cr mk (r\<lparr>row.district := []\<rparr>) = matches st [] cr mk r
   \<and> matches st di cr mk (r\<lparr>row.market := []\<rparr>) = matches st di cr [] r
   \<and> matches st di (lower cr) mk r = matches st di cr mk r
   \<and> matches (lower st) di cr mk r = matches st di cr mk r
   \<and> matches st di cr mk (r\<lparr>row.crop := lower (row.crop r)\<rparr>) = matches st di cr mk r"
  by (auto simp add: matches_def lower_idem lower_Nil_iff)

theorem matches_filter_policy_witness:
  "matches ''andhra pradesh'' ''Pune'' ''TOMATO'' ''Main Market''
     \<lparr>row.state = ''Andhra Pradesh'', district = [], market = [], crop = ''tomato'',
      date = ''2025-01-01'', price = 18, unit = ''kg''\<rparr>
   \<and> \<not> matches ''andhra pradesh'' ''Pune'' ''TOMATO'' ''Main Market''
     \<lparr>row.state = ''Andhra Pradesh'', district = ''Chennai'', market = [], crop = ''tomato'',
      date = ''2025-01-01'', price = 18, unit = ''kg''\<rparr>"
  using matches_filter_policy [of "''andhra pradesh''" "''Pune''" "''TOMATO''" "''Main Market''"
      "\<lparr>row.state = ''Andhra Pradesh'', district = [], market = [], crop = ''tomato'',
        date = ''2025-01-01'', price = 18, unit = ''kg''\<rparr>"]
    matches_filter_policy [of "''andhra pradesh''" "''Pune''" "''TOMATO''" "''Main Market''"
      "\<lparr>row.state = ''Andhra Pradesh'', district = ''Chennai'', market = [], crop = ''tomato'',
        date = ''2025-01-01'', price = 18, unit = ''kg''\<rparr>"]
  by (simp add: lower_simps)

text \<open>
  C10. With an empty state argument the state comparison is skipped: whether a row matches
  does not depend on the row's state, every row that matches some state also matches the
  empty one, and with district and market empty as well the filter is the crop comparison
  alone.
\<close>

theorem empty_state_skips_state_check:
  "matches [] di cr mk (r\<lparr>row.state := s\<rparr>) = matches [] di cr mk r
   \<and> (matches st di cr mk r \<longrightarrow> matches [] di cr mk r)
   \<and> filter (matches [] [] cr []) MOCK_DATA
       = filter (\<lambda>r. lower (row.crop r) = lower cr) MOCK_DATA"
  by (auto simp add: matches_def)

theorem empty_state_skips_state_check_witness:
  "matches [] ''Pune'' ''Rice'' []
     \<lparr>row.state = ''Karnataka'', district = ''Pune'', market = ''Main Market'', crop = ''Rice'',
      date = ''2025-01-01'', price = 30, unit = ''kg''\<rparr>
   \<and> find_recent_price
        [\<lparr>row.state = ''Karnataka'', district = ''Pune'', market = ''Main Market'',
          crop = ''Rice'', date = [], price = 30, unit = ''kg''\<rparr>] [] ''Pune'' ''Rice'' []
      = Inr (Some \<lparr>row.state = ''Karnataka'', district = ''Pune'', market = ''Main Market'',
                 crop = ''Rice'', date = [], price = 30, unit = ''kg''\<rparr>)"
proof -
  let ?r = "\<lparr>row.state = ''Tamil Nadu'', district = ''Pune'', market = ''Main Market'',
             crop = ''Rice'', date = ''2025-01-01'', price = 30, unit = ''kg''\<rparr>"
  have "matches ''Tamil Nadu'' ''Pune'' ''Rice'' [] ?r"
    by (simp add: matches_def)
  then have "matches [] ''Pune'' ''Rice'' [] ?r"
    using empty_state_skips_state_check [where di = "''Pune''" and cr = "''Rice''" and mk = "[]" and r = ?r and st = "''Tamil Nadu''"]
    by blast
  then have "matches [] ''Pune'' ''Rice'' [] (?r\<lparr>row.state := ''Karnataka''\<rparr>)"
    using empty_state_skips_state_check [where di = "''Pune''" and cr = "''Rice''" and mk = "[]" and r = ?r and s = "''Karnataka''"]
    by blast
  then show ?thesis
    by (simp add: find_recent_price_def candidates_for_def select_record_def sort_reverse_def
        strptime_def format_regex_match_def group_Y_def two_digits_def List.bind_def median_def)
qed

subsection \<open>The dataset loader\<close>

lemmas loader_simps = load_mock_data_def load_row_def dict_row_def get_strip_def bind_err_def
  row_price_def strip_def whitespace_def header_def

lemma load_row_complete:
  assumes "d ''state'' = Some (Str s)" "d ''district'' = Some (Str di)"
    "d ''market'' = Some (Str m)" "d ''crop'' = Some (Str c)" "d ''date'' = Some (Str da)"
    "d ''unit'' = Some (Str u)"
  shows "load_row float d =
     Inr \<lparr>row.state = strip s, district = strip di, market = strip m, crop = strip c,
          date = strip da, price = row_price float d,
          unit = (if strip u = [] then ''kg'' else strip u)\<rparr>"
  using assms by (simp add: load_row_def get_strip_def bind_err_def)

lemma row_price_unparseable:
  "d ''price'' = Some (Str s) \<Longrightarrow> float s = None \<Longrightarrow> row_price float d = 0"
  by (simp add: row_price_def)

lemma load_mock_data_missing_file: "load_mock_data float None = Inr []"
  by (simp add: load_mock_data_def)

text \<open>
  C9. The loader is claimed never to raise on a malformed row. A row with fewer fields than
  the header makes \<open>DictReader\<close> store \<open>None\<close> under the missing field names, and
  \<open>row.get("district", "").strip()\<close> then raises \<open>AttributeError\<close>, whatever \<open>float\<close>
  does.
\<close>

theorem load_mock_data_short_row_raises:
  "\<forall>float. load_mock_data float (Some [header, [''Karnataka'', ''Bengaluru'']])
     = Inl AttributeError"
  by (simp add: loader_simps)

subsection \<open>The choice among the candidates\<close>

lemma with_dates_of_set:
  "(d, r) \<in> set (with_dates_of cs) \<longleftrightarrow> r \<in> set cs \<and> strptime (row.date r) = Inr d"
  by (induction cs) (auto split: sum.splits)

lemma with_dates_of_Nil_iff:
  "with_dates_of cs = [] \<longleftrightarrow> (\<forall>r\<in>set cs. \<forall>d. strptime (row.date r) \<noteq> Inr d)"
  by (induction cs) (auto split: sum.splits)

lemma with_dates_of_split:
  "with_dates_of cs = pre @ (d, r) # post \<Longrightarrow>
     \<exists>cpre cpost. cs = cpre @ r # cpost \<and> with_dates_of cpre = pre
        \<and> with_dates_of cpost = post \<and> strptime (row.date r) = Inr d"
proof (induction cs arbitrary: pre)
  case Nil
  then show ?case by simp
next
  case (Cons c cs)
  show ?case
  proof (cases "strptime (row.date c)")
    case (Inl e)
    with Cons.prems have "with_dates_of cs = pre @ (d, r) # post" by simp
    from Cons.IH [OF this] obtain cpre cpost where
      "cs = cpre @ r # cpost" "with_dates_of cpre = pre" "with_dates_of cpost = post"
      "strptime (row.date r) = Inr d" by blast
    with Inl have "c # cs = (c # cpre) @ r # cpost \<and> with_dates_of (c # cpre) = pre
        \<and> with_dates_of cpost = post \<and> strptime (row.date r) = Inr d" by simp
    then show ?thesis by blast
  next
    case (Inr d0)
    with Cons.prems have eq: "(d0, c) # with_dates_of cs = pre @ (d, r) # post" by simp
    show ?thesis
    proof (cases pre)
      case Nil
      with eq have "d0 = d" "c = r" "with_dates_of cs = post" by simp_all
      with Inr have "c # cs = [] @ r # cs \<and> with_dates_of [] = []
        \<and> with_dates_of cs = post \<and> strptime (row.date r) = Inr d" by simp
      with Nil show ?thesis by blast
    next
      case (Cons p pre')
      with eq have p: "p = (d0, c)" and "with_dates_of cs = pre' @ (d, r) # post" by simp_all
      from Cons.IH [OF this(2)] obtain cpre cpost where
        "cs = cpre @ r # cpost" "with_dates_of cpre = pre'" "with_dates_of cpost = post"
        "strptime (row.date r) = Inr d" by blast
      with Inr p Cons have "c # cs = (c # cpre) @ r # cpost \<and> with_dates_of (c # cpre) = pre
        \<and> with_dates_of cpost = post \<and> strptime (row.date r) = Inr d" by simp
      then show ?thesis by blast
    qed
  qed
qed

lemma sort_reverse_Nil_iff: "sort_reverse xs = [] \<longleftrightarrow> xs = []"
proof -
  have "length (sort_reverse xs) = length xs" by (simp add: sort_reverse_def)
  then show ?thesis by (metis length_0_conv)
qed

lemma sort_reverse_hd:
  assumes "sort_reverse xs = x # rest"
  shows "\<exists>pre post. xs = pre @ x # post \<and> (\<forall>y\<in>set pre. fst y < fst x)
            \<and> (\<forall>y\<in>set post. fst y \<le> fst x)"
proof -
  let ?ys = "sort_key fst (rev xs)"
  let ?P = "\<lambda>y. fst y = fst x"
  have "rev ?ys = x # rest" using assms by (simp add: sort_reverse_def)
  then have "rev (rev ?ys) = rev (x # rest)" by simp
  then have ys: "?ys = rev rest @ [x]" by simp
  have "sorted (map fst ?ys)" by (rule sorted_sort_key)
  then have "\<forall>y\<in>set (rev rest). fst y \<le> fst x"
    unfolding ys by (simp add: sorted_append)
  moreover have "set xs = set ?ys" by simp
  ultimately have le: "\<forall>y\<in>set xs. fst y \<le> fst x" unfolding ys by auto
  have "filter ?P ?ys = filter ?P (rev xs)" by (rule sort_key_stable)
  then have "rev (filter ?P ?ys) = filter ?P xs" by (simp add: rev_filter)
  moreover have "rev (filter ?P ?ys) = x # filter ?P rest"
    unfolding ys by (simp add: rev_filter)
  ultimately have "filter ?P xs = x # filter ?P rest" by simp
  then obtain us vs where uv: "xs = us @ x # vs" "\<forall>u\<in>set us. \<not> ?P u"
    unfolding filter_eq_Cons_iff by blast
  have "\<forall>y\<in>set us. fst y < fst x"
  proof
    fix y assume "y \<in> set us"
    then have "fst y \<le> fst x" "fst y \<noteq> fst x" using le uv by auto
    then show "fst y < fst x" by simp
  qed
  moreover have "\<forall>y\<in>set vs. fst y \<le> fst x" using le uv by auto
  ultimately show ?thesis using uv(1) by blast
qed

lemma count_take:
  assumes "k \<le> length ys" "\<forall>x\<in>set (take k ys). P x"
  shows "k \<le> length (filter P ys)"
proof -
  have "filter P ys = filter P (take k ys) @ filter P (drop k ys)"
    by (metis append_take_drop_id filter_append)
  moreover have "filter P (take k ys) = take k ys" using assms(2) by (simp add: filter_id_conv)
  ultimately show ?thesis using assms(1) by simp
qed

lemma count_drop:
  assumes "\<forall>x\<in>set (drop k ys). P x"
  shows "length ys - k \<le> length (filter P ys)"
proof -
  have "filter P ys = filter P (take k ys) @ filter P (drop k ys)"
    by (metis append_take_drop_id filter_append)
  moreover have "filter P (drop k ys) = drop k ys" using assms by (simp add: filter_id_conv)
  ultimately show ?thesis by simp
qed

lemma sorted_take_le:
  assumes "sorted ys" "k < length ys" "x \<in> set (take (Suc k) ys)"
  shows "x \<le> ys ! k"
proof -
  from assms(3) obtain i where "i < length (take (Suc k) ys)" "take (Suc k) ys ! i = x"
    by (auto simp: in_set_conv_nth)
  then have "i \<le> k" "x = ys ! i" by auto
  then show ?thesis using assms(1,2) by (simp add: sorted_nth_mono)
qed

lemma sorted_drop_ge:
  assumes "sorted ys" "k < length ys" "x \<in> set (drop k ys)"
  shows "ys ! k \<le> x"
proof -
  from assms(3) obtain i where "i < length (drop k ys)" "drop k ys ! i = x"
    by (auto simp: in_set_conv_nth)
  then have "k + i < length ys" "x = ys ! (k + i)" by auto
  then show ?thesis using assms(1) by (simp add: sorted_nth_mono)
qed

lemma length_filter_sort: "length (filter P (sort xs)) = length (filter P (xs :: real list))"
  by (simp add: filter_sort)

lemma sort_Nil_iff: "sort xs = [] \<longleftrightarrow> xs = []"
proof -
  have "length (sort xs) = length xs" by simp
  then show ?thesis by (metis length_0_conv)
qed

lemma median_eq:
  "median xs =
     (if xs = [] then Inl StatisticsError
      else if length xs mod 2 = 1 then Inr (sort xs ! (length xs div 2))
      else Inr ((sort xs ! (length xs div 2 - 1) + sort xs ! (length xs div 2)) / 2))"
  by (simp add: median_def Let_def sort_Nil_iff)

lemma median_Inr:
  assumes "xs \<noteq> []"
  shows "\<exists>m. median xs = Inr m"
proof -
  from assms have
    "median xs = Inr (sort xs ! (length xs div 2))
     \<or> median xs = Inr ((sort xs ! (length xs div 2 - 1) + sort xs ! (length xs div 2)) / 2)"
    by (simp only: median_eq if_False split: if_splits) simp
  then show ?thesis by blast
qed

lemma median_is_statistical_median:
  assumes "median xs = Inr m"
  shows "is_statistical_median m xs"
proof -
  let ?d = "sort xs"
  let ?n = "length ?d"
  have n: "?n = length xs" by simp
  have s: "sorted ?d" by (metis sorted_sort)
  from assms have ne: "xs \<noteq> []" by (auto simp: median_eq)
  then have pos: "0 < ?n" by simp
  show ?thesis
  proof (cases "?n mod 2 = 1")
    case True
    with assms ne have m: "m = ?d ! (?n div 2)" by (simp add: median_eq)
    have k: "?n div 2 < ?n" using pos by simp
    have "\<forall>x\<in>set (take (Suc (?n div 2)) ?d). x \<le> m"
      using sorted_take_le [OF s k] m by blast
    then have "Suc (?n div 2) \<le> length (filter (\<lambda>x. x \<le> m) ?d)"
      using count_take [of "Suc (?n div 2)" ?d "\<lambda>x. x \<le> m"] k by simp
    then have a: "?n \<le> 2 * length (filter (\<lambda>x. x \<le> m) xs)"
      unfolding length_filter_sort by linarith
    have "\<forall>x\<in>set (drop (?n div 2) ?d). m \<le> x"
      using sorted_drop_ge [OF s k] m by blast
    then have "?n - ?n div 2 \<le> length (filter (\<lambda>x. m \<le> x) ?d)"
      by (rule count_drop)
    then have b: "?n \<le> 2 * length (filter (\<lambda>x. m \<le> x) xs)"
      unfolding length_filter_sort by linarith
    from a b show ?thesis unfolding is_statistical_median_def n by simp
  next
    case False
    then have even: "?n mod 2 = 0" by simp
    let ?i = "?n div 2"
    from False assms ne have m: "m = (?d ! (?i - 1) + ?d ! ?i) / 2"
      by (simp add: median_eq)
    have i: "0 < ?i" "?i < ?n" "2 * ?i = ?n" using pos even by presburger+
    have le: "?d ! (?i - 1) \<le> ?d ! ?i" using s i by (simp add: sorted_nth_mono)
    have m1: "?d ! (?i - 1) \<le> m" and m2: "m \<le> ?d ! ?i" using le m by simp_all
    have k1: "?i - 1 < ?n" using i by simp
    have "\<forall>x\<in>set (take (Suc (?i - 1)) ?d). x \<le> ?d ! (?i - 1)"
      using sorted_take_le [OF s k1] by blast
    then have "\<forall>x\<in>set (take ?i ?d). x \<le> m" using m1 i(1) by fastforce
    then have "?i \<le> length (filter (\<lambda>x. x \<le> m) ?d)"
      using count_take [of ?i ?d "\<lambda>x. x \<le> m"] i by simp
    then have a: "?n \<le> 2 * length (filter (\<lambda>x. x \<le> m) xs)"
      unfolding length_filter_sort using i(3) by linarith
    have "\<forall>x\<in>set (drop ?i ?d). ?d ! ?i \<le> x"
      using sorted_drop_ge [OF s i(2)] by blast
    then have "\<forall>x\<in>set (drop ?i ?d). m \<le> x" using m2 by fastforce
    then have "?n - ?i \<le> length (filter (\<lambda>x. m \<le> x) ?d)"
      by (rule count_drop)
    then have b: "?n \<le> 2 * length (filter (\<lambda>x. m \<le> x) xs)"
      unfolding length_filter_sort using i(3) by linarith
    from a b show ?thesis unfolding is_statistical_median_def n by simp
  qed
qed

lemma select_record_no_dates:
  assumes "\<forall>r\<in>set (first # rest). \<forall>d. strptime (row.date r) \<noteq> Inr d"
  shows "select_record (first # rest) =
     (let prices = filter (\<lambda>p. 0 < p) (map row.price (first # rest)) in
      if prices \<noteq> [] then
        (case median prices of Inl e \<Rightarrow> Inl e
         | Inr med \<Rightarrow> Inr (Some (first\<lparr>row.price := med\<rparr>)))
      else Inr None)"
proof -
  have "with_dates_of (first # rest) = []"
    using assms unfolding with_dates_of_Nil_iff by blast
  then have "sort_reverse (with_dates_of (first # rest)) = []"
    by (simp only: sort_reverse_Nil_iff)
  then show ?thesis unfolding select_record_def by (simp only: list.case)
qed

lemma find_recent_price_select:
  "find_recent_price MOCK_DATA st di cr mk = select_record (candidates_for MOCK_DATA st di cr mk)"
  by (simp add: find_recent_price_def candidates_for_def select_record_def)

text \<open>
  C7. When the candidate set is non-empty and no candidate's date parses: if some candidate
  has a positive price, the result is the first candidate with its price replaced by the
  median of the positive candidate prices (a value with at least half of them on either
  side); otherwise the result is none.
\<close>

theorem median_fallback:
  assumes "candidates_for MOCK_DATA st di cr mk = first # rest"
    and "\<forall>r\<in>set (first # rest). \<forall>d. strptime (row.date r) \<noteq> Inr d"
  shows "(list_ex (\<lambda>r. 0 < row.price r) (first # rest) \<longrightarrow>
            (\<exists>med. median (filter (\<lambda>p. 0 < p) (map row.price (first # rest))) = Inr med
               \<and> is_statistical_median med (filter (\<lambda>p. 0 < p) (map row.price (first # rest)))
               \<and> find_recent_price MOCK_DATA st di cr mk
                    = Inr (Some (first\<lparr>row.price := med\<rparr>))))
       \<and> (\<not> list_ex (\<lambda>r. 0 < row.price r) (first # rest) \<longrightarrow>
            find_recent_price MOCK_DATA st di cr mk = Inr None)"
proof -
  let ?prices = "filter (\<lambda>p. 0 < p) (map row.price (first # rest))"
  have sel: "find_recent_price MOCK_DATA st di cr mk =
     (if ?prices \<noteq> [] then
        (case median ?prices of Inl e \<Rightarrow> Inl e
         | Inr med \<Rightarrow> Inr (Some (first\<lparr>row.price := med\<rparr>)))
      else Inr None)"
    unfolding find_recent_price_select assms(1) select_record_no_dates [OF assms(2)] Let_def
    by (rule refl)
  have ne: "?prices \<noteq> [] \<longleftrightarrow> list_ex (\<lambda>r. 0 < row.price r) (first # rest)"
    unfolding list_ex_iff filter_empty_conv by (simp del: filter.simps list.map) 
  show ?thesis
  proof (cases "list_ex (\<lambda>r. 0 < row.price r) (first # rest)")
    case True
    then have p: "?prices \<noteq> []" using ne by blast
    then obtain med where med: "median ?prices = Inr med" using median_Inr by blast
    then have "is_statistical_median med ?prices" by (rule median_is_statistical_median)
    moreover have "find_recent_price MOCK_DATA st di cr mk = Inr (Some (first\<lparr>row.price := med\<rparr>))"
      unfolding sel using p med by (simp del: filter.simps list.map)
    ultimately show ?thesis using True med by blast
  next
    case False
    then have "?prices = []" using ne by blast
    then have "find_recent_price MOCK_DATA st di cr mk = Inr None"
      unfolding sel by (simp del: filter.simps list.map)
    then show ?thesis using False by blast
  qed
qed

lemmas strptime_simps = strptime_def format_regex_match_def group_Y_def group_m_def group_d_def
  two_digits_def literal_def digit_val_def digit_table_def days_in_month_def is_leap_def
  List.bind_def

theorem median_fallback_witness:
  "find_recent_price
     [\<lparr>row.state = ''X'', district = [], market = [], crop = ''Rice'', date = ''n/a'',
       price = 30, unit = ''kg''\<rparr>,
      \<lparr>row.state = ''X'', district = [], market = [], crop = ''Rice'', date = [],
       price = 10, unit = ''kg''\<rparr>,
      \<lparr>row.state = ''X'', district = [], market = [], crop = ''Rice'', date = ''2025-02-30'',
       price = 0, unit = ''kg''\<rparr>,
      \<lparr>row.state = ''X'', district = [], market = [], crop = ''Rice'', date = ''01/03/2025'',
       price = 20, unit = ''kg''\<rparr>] ''X'' [] ''Rice'' []
   = Inr (Some \<lparr>row.state = ''X'', district = [], market = [], crop = ''Rice'', date = ''n/a'',
       price = 20, unit = ''kg''\<rparr>)"
proof -
  let ?a = "\<lparr>row.state = ''X'', district = [], market = [], crop = ''Rice'', date = ''n/a'',
       price = 30, unit = ''kg''\<rparr>"
  let ?b = "\<lparr>row.state = ''X'', district = [], market = [], crop = ''Rice'', date = [],
       price = 10, unit = ''kg''\<rparr>"
  let ?c = "\<lparr>row.state = ''X'', district = [], market = [], crop = ''Rice'', date = ''2025-02-30'',
       price = 0, unit = ''kg''\<rparr>"
  let ?d = "\<lparr>row.state = ''X'', district = [], market = [], crop = ''Rice'', date = ''01/03/2025'',
       price = 20, unit = ''kg''\<rparr>"
  have c: "candidates_for [?a, ?b, ?c, ?d] ''X'' [] ''Rice'' [] = ?a # [?b, ?c, ?d]"
    by (simp add: candidates_for_def matches_def)
  have nd: "\<forall>r\<in>set (?a # [?b, ?c, ?d]). \<forall>d. strptime (row.date r) \<noteq> Inr d"
    by (simp add: strptime_simps)
  have m: "median [30, 10, 20] = Inr 20" by (simp add: median_def)
  show ?thesis
    using median_fallback [OF c nd] m by simp
qed

lemma select_record_Some:
  assumes "r0 \<in> set cands"
    and "(\<exists>d. strptime (row.date r0) = Inr d) \<or> 0 < row.price r0"
    and "\<forall>r\<in>set cands. P (row.crop r)"
  shows "\<exists>r. select_record cands = Inr (Some r) \<and> P (row.crop r)"
proof -
  from assms(1) obtain first rest where fr: "cands = first # rest" by (cases cands) auto
  show ?thesis
  proof (cases "sort_reverse (with_dates_of cands)")
    case Nil
    then have wd: "with_dates_of cands = []" by (simp only: sort_reverse_Nil_iff)
    then have nd: "\<forall>r\<in>set (first # rest). \<forall>d. strptime (row.date r) \<noteq> Inr d"
      unfolding fr with_dates_of_Nil_iff .
    then have "0 < row.price r0" using assms(1,2) fr by blast
    then have ne: "filter (\<lambda>p. 0 < p) (map row.price (first # rest)) \<noteq> []"
      using assms(1) fr unfolding filter_empty_conv by (auto simp del: filter.simps)
    then obtain med where "median (filter (\<lambda>p. 0 < p) (map row.price (first # rest))) = Inr med"
      using median_Inr by blast
    then have "select_record cands = Inr (Some (first\<lparr>row.price := med\<rparr>))"
      unfolding fr select_record_no_dates [OF nd] Let_def using ne
      by (simp del: filter.simps list.map)
    moreover have "P (row.crop (first\<lparr>row.price := med\<rparr>))" using assms(3) fr by simp
    ultimately show ?thesis by blast
  next
    case (Cons x xs)
    obtain d r where x: "x = (d, r)" by (cases x)
    have "x \<in> set (sort_reverse (with_dates_of cands))" using Cons by simp
    then have "(d, r) \<in> set (with_dates_of cands)" unfolding x by (simp add: sort_reverse_def)
    then have "r \<in> set cands" unfolding with_dates_of_set by blast
    moreover have "select_record cands = Inr (Some r)"
      unfolding select_record_def fr [symmetric] using Cons x fr by simp
    ultimately show ?thesis using assms(3) by blast
  qed
qed

text \<open>
  C5, as amended. When the full filter yields no candidate, the finder works on the rows
  that match the crop alone: its result is that of the selection on those rows, the same as
  for a query with empty state, district and market. It returns a record (of that crop)
  whenever some crop-matching row has a parseable date or a positive price.
\<close>

theorem relaxation_to_crop_only:
  assumes "filter (matches st di cr mk) MOCK_DATA = []"
  shows "find_recent_price MOCK_DATA st di cr mk
           = select_record (filter (\<lambda>r. lower (row.crop r) = lower cr) MOCK_DATA)
       \<and> find_recent_price MOCK_DATA st di cr mk = find_recent_price MOCK_DATA [] [] cr []
       \<and> (list_ex (\<lambda>r. lower (row.crop r) = lower cr
                       \<and> ((\<exists>d. strptime (row.date r) = Inr d) \<or> 0 < row.price r)) MOCK_DATA
            \<longrightarrow> (\<exists>r. find_recent_price MOCK_DATA st di cr mk = Inr (Some r)
                      \<and> lower (row.crop r) = lower cr))"
proof -
  let ?C = "filter (\<lambda>r. lower (row.crop r) = lower cr) MOCK_DATA"
  have a: "find_recent_price MOCK_DATA st di cr mk = select_record ?C"
    unfolding find_recent_price_select using assms by (simp add: candidates_for_def)
  have m: "matches [] [] cr [] = (\<lambda>r. lower (row.crop r) = lower cr)"
    by (auto simp add: matches_def)
  have "candidates_for MOCK_DATA [] [] cr [] = ?C"
    unfolding candidates_for_def m by simp
  then have b: "find_recent_price MOCK_DATA [] [] cr [] = select_record ?C"
    unfolding find_recent_price_select by simp
  have c: "\<exists>r. select_record ?C = Inr (Some r) \<and> lower (row.crop r) = lower cr"
    if "list_ex (\<lambda>r. lower (row.crop r) = lower cr
                       \<and> ((\<exists>d. strptime (row.date r) = Inr d) \<or> 0 < row.price r)) MOCK_DATA"
  proof -
    from that obtain r0 where r0: "r0 \<in> set MOCK_DATA" "lower (row.crop r0) = lower cr"
      "(\<exists>d. strptime (row.date r0) = Inr d) \<or> 0 < row.price r0"
      unfolding list_ex_iff by blast
    then have "r0 \<in> set ?C" by simp
    moreover have "\<forall>r\<in>set ?C. (\<lambda>c. lower c = lower cr) (row.crop r)" by simp
    ultimately show ?thesis using select_record_Some [of r0 ?C "\<lambda>c. lower c = lower cr"] r0(3)
      by blast
  qed
  from a b c show ?thesis by simp
qed

text \<open>
  C5 as stated fails: a row that matches the crop only, with an unparseable date and price
  0, is a candidate of the relaxed pass, and the finder still returns none.
\<close>

theorem relaxation_returns_none_counterexample:
  "lower (row.crop \<lparr>row.state = ''Karnataka'', district = ''Pune'', market = ''Main Market'',
        crop = ''Rice'', date = [], price = 0, unit = ''kg''\<rparr>) = lower ''rice''
   \<and> \<not> matches ''Telangana'' ''Hyderabad'' ''rice'' ''Local Market''
        \<lparr>row.state = ''Karnataka'', district = ''Pune'', market = ''Main Market'',
         crop = ''Rice'', date = [], price = 0, unit = ''kg''\<rparr>
   \<and> find_recent_price
        [\<lparr>row.state = ''Karnataka'', district = ''Pune'', market = ''Main Market'',
          crop = ''Rice'', date = [], price = 0, unit = ''kg''\<rparr>]
        ''Telangana'' ''Hyderabad'' ''rice'' ''Local Market'' = Inr None"
  by (simp add: find_recent_price_def candidates_for_def matches_def select_record_def
      sort_reverse_def lower_simps strptime_simps)

theorem relaxation_to_crop_only_witness:
  "filter (matches ''Telangana'' ''Hyderabad'' ''rice'' ''Local Market'')
     [\<lparr>row.state = ''Karnataka'', district = ''Pune'', market = ''Main Market'',
       crop = ''Rice'', date = ''2025-03-01'', price = 32, unit = ''kg''\<rparr>] = []
   \<and> find_recent_price
        [\<lparr>row.state = ''Karnataka'', district = ''Pune'', market = ''Main Market'',
          crop = ''Rice'', date = ''2025-03-01'', price = 32, unit = ''kg''\<rparr>]
        ''Telangana'' ''Hyderabad'' ''rice'' ''Local Market''
      = Inr (Some \<lparr>row.state = ''Karnataka'', district = ''Pune'', market = ''Main Market'',
          crop = ''Rice'', date = ''2025-03-01'', price = 32, unit = ''kg''\<rparr>)"
proof -
  let ?r = "\<lparr>row.state = ''Karnataka'', district = ''Pune'', market = ''Main Market'',
       crop = ''Rice'', date = ''2025-03-01'', price = 32, unit = ''kg''\<rparr>"
  have h: "filter (matches ''Telangana'' ''Hyderabad'' ''rice'' ''Local Market'') [?r] = []"
    by (simp add: matches_def lower_simps)
  have "find_recent_price [?r] ''Telangana'' ''Hyderabad'' ''rice'' ''Local Market''
          = select_record (filter (\<lambda>r. lower (row.crop r) = lower ''rice'') [?r])"
    using relaxation_to_crop_only [OF h] by blast
  also have "\<dots> = Inr (Some ?r)"
    by (simp add: select_record_def sort_reverse_def lower_simps strptime_simps)
  finally show ?thesis using h by blast
qed

lemma select_record_latest:
  assumes "\<exists>r\<in>set cands. \<exists>d. strptime (row.date r) = Inr d"
  shows "\<exists>pre r post d. cands = pre @ r # post \<and> select_record cands = Inr (Some r)
           \<and> strptime (row.date r) = Inr d
           \<and> (\<forall>r'\<in>set pre. \<forall>d'. strptime (row.date r') = Inr d' \<longrightarrow> d' < d)
           \<and> (\<forall>r'\<in>set post. \<forall>d'. strptime (row.date r') = Inr d' \<longrightarrow> d' \<le> d)"
proof -
  from assms obtain first rest where fr: "cands = first # rest" by (cases cands) auto
  from assms have "with_dates_of cands \<noteq> []" unfolding with_dates_of_Nil_iff by blast
  then have "sort_reverse (with_dates_of cands) \<noteq> []" by (simp only: sort_reverse_Nil_iff not_False_eq_True)
  then obtain x xs where srt: "sort_reverse (with_dates_of cands) = x # xs"
    by (cases "sort_reverse (with_dates_of cands)") auto
  obtain d r where x: "x = (d, r)" by (cases x)
  have sel: "select_record cands = Inr (Some r)"
    unfolding select_record_def fr [symmetric] using srt x fr by simp
  from sort_reverse_hd [OF srt] obtain wpre wpost where
    w: "with_dates_of cands = wpre @ (d, r) # wpost"
       "\<forall>y\<in>set wpre. fst y < d" "\<forall>y\<in>set wpost. fst y \<le> d"
    unfolding x by auto
  from with_dates_of_split [OF w(1)] obtain cpre cpost where
    c: "cands = cpre @ r # cpost" "with_dates_of cpre = wpre" "with_dates_of cpost = wpost"
       "strptime (row.date r) = Inr d" by blast
  have "\<forall>r'\<in>set cpre. \<forall>d'. strptime (row.date r') = Inr d' \<longrightarrow> d' < d"
  proof (intro ballI allI impI)
    fix r' d' assume "r' \<in> set cpre" "strptime (row.date r') = Inr d'"
    then have "(d', r') \<in> set wpre" using c(2) with_dates_of_set by blast
    then show "d' < d" using w(2) by fastforce
  qed
  moreover have "\<forall>r'\<in>set cpost. \<forall>d'. strptime (row.date r') = Inr d' \<longrightarrow> d' \<le> d"
  proof (intro ballI allI impI)
    fix r' d' assume "r' \<in> set cpost" "strptime (row.date r') = Inr d'"
    then have "(d', r') \<in> set wpost" using c(3) with_dates_of_set by blast
    then show "d' \<le> d" using w(3) by fastforce
  qed
  ultimately show ?thesis using c(1,4) sel by blast
qed

lemma candidates_for_filter:
  "\<exists>P. candidates_for MOCK_DATA st di cr mk = filter P MOCK_DATA"
  unfolding candidates_for_def Let_def by (cases "filter (matches st di cr mk) MOCK_DATA = []") auto

text \<open>
  C2. When some candidate's date parses, the finder returns a candidate whose date parses,
  such that every parseable date before it in the candidate list is strictly older and
  every parseable date after it is not more recent; the candidate list is a filter of the
  dataset, so it is in dataset order.
\<close>

theorem most_recent_first_in_dataset_order:
  assumes "\<exists>r\<in>set (candidates_for MOCK_DATA st di cr mk). \<exists>d. strptime (row.date r) = Inr d"
  shows "\<exists>pre r post d.
           candidates_for MOCK_DATA st di cr mk = pre @ r # post
           \<and> find_recent_price MOCK_DATA st di cr mk = Inr (Some r)
           \<and> strptime (row.date r) = Inr d
           \<and> (\<forall>r'\<in>set pre. \<forall>d'. strptime (row.date r') = Inr d' \<longrightarrow> d' < d)
           \<and> (\<forall>r'\<in>set post. \<forall>d'. strptime (row.date r') = Inr d' \<longrightarrow> d' \<le> d)
           \<and> (\<exists>P. pre @ r # post = filter P MOCK_DATA)"
proof -
  from select_record_latest [OF assms] obtain pre r post d where
    *: "candidates_for MOCK_DATA st di cr mk = pre @ r # post"
       "select_record (candidates_for MOCK_DATA st di cr mk) = Inr (Some r)"
       "strptime (row.date r) = Inr d"
       "\<forall>r'\<in>set pre. \<forall>d'. strptime (row.date r') = Inr d' \<longrightarrow> d' < d"
       "\<forall>r'\<in>set post. \<forall>d'. strptime (row.date r') = Inr d' \<longrightarrow> d' \<le> d"
    by blast
  have "\<exists>P. pre @ r # post = filter P MOCK_DATA"
    using candidates_for_filter [of MOCK_DATA st di cr mk] unfolding *(1) .
  with * show ?thesis unfolding find_recent_price_select by blast
qed

theorem most_recent_first_in_dataset_order_witness:
  "find_recent_price
     [\<lparr>row.state = ''X'', district = [], market = [], crop = ''Rice'', date = ''2025-01-01'',
       price = 30, unit = ''kg''\<rparr>,
      \<lparr>row.state = ''X'', district = [], market = [], crop = ''Rice'', date = ''2025-03-01'',
       price = 32, unit = ''kg''\<rparr>,
      \<lparr>row.state = ''X'', district = [], market = [], crop = ''Rice'', date = ''2025-3-1'',
       price = 34, unit = ''kg''\<rparr>] ''X'' [] ''Rice'' []
   = Inr (Some \<lparr>row.state = ''X'', district = [], market = [], crop = ''Rice'',
                date = ''2025-03-01'', price = 32, unit = ''kg''\<rparr>)"
proof -
  let ?a = "\<lparr>row.state = ''X'', district = [], market = [], crop = ''Rice'', date = ''2025-01-01'',
       price = 30, unit = ''kg''\<rparr>"
  let ?b = "\<lparr>row.state = ''X'', district = [], market = [], crop = ''Rice'', date = ''2025-03-01'',
       price = 32, unit = ''kg''\<rparr>"
  let ?c = "\<lparr>row.state = ''X'', district = [], market = [], crop = ''Rice'', date = ''2025-3-1'',
       price = 34, unit = ''kg''\<rparr>"
  have c: "candidates_for [?a, ?b, ?c] ''X'' [] ''Rice'' [] = [?a, ?b, ?c]"
    by (simp add: candidates_for_def matches_def)
  have da: "strptime (row.date ?a) = Inr (2025, 1, 1)" by (simp add: strptime_simps)
  have db: "strptime (row.date ?b) = Inr (2025, 3, 1)" by (simp add: strptime_simps)
  have dc: "strptime (row.date ?c) = Inr (2025, 3, 1)" by (simp add: strptime_simps)
  have h: "\<exists>r\<in>set (candidates_for [?a, ?b, ?c] ''X'' [] ''Rice'' []).
             \<exists>d. strptime (row.date r) = Inr d"
    unfolding c using da by simp
  from most_recent_first_in_dataset_order [OF h] obtain pre r post d where
    *: "[?a, ?b, ?c] = pre @ r # post"
       "find_recent_price [?a, ?b, ?c] ''X'' [] ''Rice'' [] = Inr (Some r)"
       "strptime (row.date r) = Inr d"
       "\<forall>r'\<in>set pre. \<forall>d'. strptime (row.date r') = Inr d' \<longrightarrow> d' < d"
       "\<forall>r'\<in>set post. \<forall>d'. strptime (row.date r') = Inr d' \<longrightarrow> d' \<le> d"
    unfolding c by blast
  have lt: "((2025, 1, 1) :: datetime) < (2025, 3, 1)" by (simp add: less_prod_def)
  from *(1) consider "pre = [] \<and> r = ?a \<and> post = [?b, ?c]"
    | "pre = [?a] \<and> r = ?b \<and> post = [?c]"
    | "pre = [?a, ?b] \<and> r = ?c \<and> post = []"
    by (auto simp: Cons_eq_append_conv append_eq_Cons_conv)
  then have "r = ?b"
  proof cases
    case 1
    then have "d = (2025, 1, 1)" using *(3) da by simp
    moreover have "(2025, 3, 1) \<le> d" using *(5) 1 db by simp
    ultimately show ?thesis using lt by simp
  next
    case 2
    then show ?thesis by simp
  next
    case 3
    then have "d = (2025, 3, 1)" using *(3) dc by simp
    moreover have "(2025, 3, 1) < d" using *(4) 3 db by simp
    ultimately show ?thesis by simp
  qed
  then show ?thesis using *(2) by simp
qed

subsection \<open>Rounding and the random walk\<close>

lemma round_half_even_of_int: "round_half_even (of_int n) = n"
  by (simp add: round_half_even_def)

lemma round_half_even_ge_floor: "\<lfloor>y\<rfloor> \<le> round_half_even y"
  by (simp add: round_half_even_def Let_def)

lemma round_half_even_ge:
  assumes "of_int n \<le> y"
  shows "n \<le> round_half_even y"
proof -
  from assms have "n \<le> \<lfloor>y\<rfloor>" by (simp add: le_floor_iff)
  then show ?thesis using round_half_even_ge_floor [of y] by linarith
qed

lemma round_half_even_gt_half:
  assumes "1 / 2 < y"
  shows "1 \<le> round_half_even y"
proof (cases "1 \<le> y")
  case True
  then have "of_int 1 \<le> y" by simp
  then show ?thesis by (rule round_half_even_ge)
next
  case False
  with assms have "\<lfloor>y\<rfloor> = 0" by (simp add: floor_eq_iff)
  then show ?thesis using assms by (simp add: round_half_even_def Let_def)
qed

lemma round2_idem: "round2 (round2 x) = round2 x"
  by (simp add: round2_def round_half_even_of_int)

lemma round2_nonneg: "0 \<le> x \<Longrightarrow> 0 \<le> round2 x"
  using round_half_even_ge [of 0 "x * 100"] by (simp add: round2_def)

lemma round2_ge_cent:
  assumes "0.005 < x"
  shows "0.01 \<le> round2 x"
proof -
  from assms have "1 / 2 < x * 100" by simp
  then have "1 \<le> round_half_even (x * 100)" by (rule round_half_even_gt_half)
  then have "(1 :: real) \<le> of_int (round_half_even (x * 100))" by linarith
  then show ?thesis by (simp add: round2_def)
qed

lemma round2_ge_ten:
  assumes "10 \<le> x"
  shows "10 \<le> round2 x"
proof -
  from assms have "of_int 1000 \<le> x * 100" by simp
  then have "1000 \<le> round_half_even (x * 100)" by (rule round_half_even_ge)
  then have "(1000 :: real) \<le> of_int (round_half_even (x * 100))" by linarith
  then show ?thesis by (simp add: round2_def)
qed

lemma walk_ge_floor: "0.01 \<le> p \<Longrightarrow> 0.01 \<le> walk vol zs k n p"
  by (induction n arbitrary: k p) (simp_all add: Let_def)

lemma walk_floor:
  assumes "0 < n"
  shows "0.01 \<le> walk vol zs k n p"
proof -
  from assms obtain n' where n: "n = Suc n'" by (cases n) auto
  have "(0.01 :: real) \<le> max 0.01 (p * (1 + (0 + zs k * vol)))" by (rule max.cobounded1)
  then have "0.01 \<le> walk vol zs (Suc k) n' (max 0.01 (p * (1 + (0 + zs k * vol))))"
    by (rule walk_ge_floor)
  then show ?thesis unfolding n by (simp only: walk.simps Let_def)
qed

lemma simple_predict_zero: "simple_predict zs p 0 c = round2 p"
  by (simp add: simple_predict_def)

lemma simple_predict_ahead:
  assumes "1 \<le> m"
  shows "0.01 \<le> simple_predict zs p m c"
proof -
  let ?w = "walk (volatility c) zs 0 (nat m) p"
  have w: "0.01 \<le> ?w" using assms by (intro walk_floor) simp
  have "1 \<le> 1 + 0.01 * (of_int m :: real)" using assms by simp
  then have "?w * 1 \<le> ?w * (1 + 0.01 * of_int m)"
    using w by (intro mult_left_mono) simp_all
  then have "?w \<le> ?w * (1 + 0.01 * of_int m)" by (simp only: mult_1_right)
  moreover have "0.005 < ?w" using w by simp
  ultimately have "0.005 < ?w * (1 + 0.01 * of_int m)" by (rule less_le_trans [rotated])
  then show ?thesis unfolding simple_predict_def Let_def by (rule round2_ge_cent)
qed

subsection \<open>Parsing dates\<close>

lemma one_digit_elem:
  "(x, r) \<in> set (one_digit lo hi s)
     \<longleftrightarrow> (\<exists>a. s = a # r \<and> digit_val a = Some x \<and> lo \<le> x \<and> x \<le> hi)"
  by (cases s) (auto split: option.splits)

lemma two_digits_elem:
  "(v, r) \<in> set (two_digits alo ahi blo bhi s)
     \<longleftrightarrow> (\<exists>a b x y. s = a # b # r \<and> digit_val a = Some x \<and> alo \<le> x \<and> x \<le> ahi
            \<and> digit_val b = Some y \<and> blo \<le> y \<and> y \<le> bhi \<and> v = 10 * x + y)"
  unfolding two_digits_def List.bind_def
  by (auto simp: one_digit_elem) 

lemma literal_elem: "r \<in> set (literal c s) \<longleftrightarrow> s = c # r"
  by (cases s) (auto simp: literal_def)

lemma group_m_range: "(m, r) \<in> set (group_m s) \<Longrightarrow> 1 \<le> m \<and> m \<le> 12"
  by (auto simp: group_m_def two_digits_elem one_digit_elem)

lemma set_bind_iff: "z \<in> set (List.bind xs f) \<longleftrightarrow> (\<exists>x. x \<in> set xs \<and> z \<in> set (f x))"
  by (auto simp: List.bind_def)

lemma format_regex_match_elem:
  "((y, m, d), r) \<in> set (format_regex_match t)
     \<longleftrightarrow> (\<exists>r2 r4. (y, CHR ''-'' # r2) \<in> set (group_Y t)
            \<and> (m, CHR ''-'' # r4) \<in> set (group_m r2) \<and> (d, r) \<in> set (group_d r4))"
proof -
  have "((y, m, d), r) \<in> set (format_regex_match t) \<longleftrightarrow>
    (\<exists>y' r1. (y', r1) \<in> set (group_Y t) \<and> (\<exists>r2. r1 = CHR ''-'' # r2 \<and>
      (\<exists>m' r3. (m', r3) \<in> set (group_m r2) \<and> (\<exists>r4. r3 = CHR ''-'' # r4 \<and>
        (\<exists>d' r5. (d', r5) \<in> set (group_d r4) \<and> ((y, m, d), r) \<in> set [((y', m', d'), r5)])))))"
    unfolding format_regex_match_def
    by (simp only: set_bind_iff literal_elem split_paired_Ex prod.case)
  also have "\<dots> \<longleftrightarrow> (\<exists>r2 r4. (y, CHR ''-'' # r2) \<in> set (group_Y t)
            \<and> (m, CHR ''-'' # r4) \<in> set (group_m r2) \<and> (d, r) \<in> set (group_d r4))"
    by auto blast
  finally show ?thesis .
qed

lemma strptime_Inr:
  assumes "strptime t = Inr (y, m, d)"
  shows "((y, m, d), []) \<in> set (format_regex_match t) \<and> 1 \<le> y \<and> d \<le> days_in_month y m"
  using assms unfolding strptime_def
  by (auto split: list.splits prod.splits if_splits)

lemma month_to_date_Inr:
  assumes "month_to_date ym = Inr (y, m, d)"
  shows "strptime (ym @ ''-01'') = Inr (y, m, d) \<and> 1 \<le> m \<and> m \<le> 12"
proof -
  from assms have s: "strptime (ym @ ''-01'') = Inr (y, m, d)"
    unfolding month_to_date_def by (auto split: sum.splits)
  from strptime_Inr [OF s] have "((y, m, d), []) \<in> set (format_regex_match (ym @ ''-01''))"
    by blast
  then obtain r r' where "(m, r) \<in> set (group_m r')"
    unfolding format_regex_match_elem by blast
  then show ?thesis using s group_m_range by blast
qed

subsection \<open>The endpoint\<close>

lemma select_record_total: "\<exists>rec. select_record cands = Inr rec"
proof (cases cands)
  case Nil
  then show ?thesis by (simp add: select_record_def)
next
  case (Cons first rest)
  show ?thesis
  proof (cases "sort_reverse (with_dates_of cands)")
    case (Cons x xs)
    obtain d r where "x = (d, r)" by (cases x)
    with Cons \<open>cands = first # rest\<close> have "select_record cands = Inr (Some r)"
      by (simp add: select_record_def)
    then show ?thesis by blast
  next
    case Nil
    let ?prices = "filter (\<lambda>p. 0 < p) (map row.price cands)"
    show ?thesis
    proof (cases "?prices = []")
      case True
      with Nil \<open>cands = first # rest\<close> have "select_record cands = Inr None"
        by (simp add: select_record_def del: filter.simps list.map)
      then show ?thesis by blast
    next
      case False
      then obtain med where "median ?prices = Inr med" using median_Inr by blast
      with False Nil \<open>cands = first # rest\<close>
      have "select_record cands = Inr (Some (first\<lparr>row.price := med\<rparr>))"
        by (simp add: select_record_def del: filter.simps list.map)
      then show ?thesis by blast
    qed
  qed
qed

lemma find_recent_price_total: "\<exists>rec. find_recent_price MOCK_DATA st di cr mk = Inr rec"
  unfolding find_recent_price_select by (rule select_record_total)

lemma predict_Inr:
  assumes "predict MOCK_DATA now u zs req = Inr resp"
  obtains target rec cp un me where
    "month_to_date (PredictRequest.month req) = Inr target"
    "find_recent_price MOCK_DATA (PredictRequest.state req)
       (or_empty (PredictRequest.district req)) (PredictRequest.crop req)
       (or_empty (PredictRequest.market req)) = Inr rec"
    "resolve_price u (PredictRequest.crop req) rec = (cp, un, me)"
    "currentPrice resp = round2 cp"
    "predictedPrice resp
       = round2 (simple_predict zs cp (months_ahead_of target now) (PredictRequest.crop req))"
    "method_tag resp = me"
proof -
  from assms obtain target where t: "month_to_date (PredictRequest.month req) = Inr target"
    unfolding predict_def by (auto split: sum.splits)
  obtain rec where f: "find_recent_price MOCK_DATA (PredictRequest.state req)
       (or_empty (PredictRequest.district req)) (PredictRequest.crop req)
       (or_empty (PredictRequest.market req)) = Inr rec"
    using find_recent_price_total by blast
  obtain cp un me where r: "resolve_price u (PredictRequest.crop req) rec = (cp, un, me)"
    by (cases "resolve_price u (PredictRequest.crop req) rec") auto
  from assms t f r have
    "resp = \<lparr>PredictResponse.state = PredictRequest.state req,
             district = PredictRequest.district req,
             market = PredictRequest.market req,
             crop = PredictRequest.crop req,
             month = PredictRequest.month req,
             unit = un,
             currentPrice = round2 cp,
             predictedPrice = round2 (simple_predict zs cp (months_ahead_of target now)
                                        (PredictRequest.crop req)),
             method_tag = me\<rparr>"
    unfolding predict_def months_ahead_of_def by (simp add: Let_def)
  then have "currentPrice resp = round2 cp"
    "predictedPrice resp
       = round2 (simple_predict zs cp (months_ahead_of target now) (PredictRequest.crop req))"
    "method_tag resp = me" by simp_all
  with t f r show ?thesis using that by blast
qed

lemma predict_total:
  "month_to_date (PredictRequest.month req) = Inr target \<Longrightarrow>
     \<exists>resp. predict MOCK_DATA now u zs req = Inr resp"
  using find_recent_price_total
    [of MOCK_DATA "PredictRequest.state req" "or_empty (PredictRequest.district req)"
        "PredictRequest.crop req" "or_empty (PredictRequest.market req)"]
  unfolding predict_def by (auto simp: Let_def split: prod.splits)

lemma base_map_ge: "map_of base_map k = Some p \<Longrightarrow> 10 \<le> p"
  unfolding base_map_def by (auto split: if_splits)

lemma resolve_price_props:
  assumes "resolve_price u c rec = (cp, un, me)" "10 \<le> u"
  shows "0 < cp" and "me = ''synthetic'' \<Longrightarrow> 10 \<le> cp"
    and "rec = Some r \<Longrightarrow> 0 < row.price r \<Longrightarrow> cp = row.price r"
proof -
  have syn: "10 \<le> (case map_of base_map (lower c) of Some p \<Rightarrow> p | None \<Rightarrow> u)"
    using assms(2) base_map_ge by (auto split: option.splits)
  from assms(1) syn show "0 < cp"
    unfolding resolve_price_def Let_def by (auto split: option.splits if_splits)
  from assms(1) syn show "me = ''synthetic'' \<Longrightarrow> 10 \<le> cp"
    unfolding resolve_price_def Let_def by (auto split: option.splits if_splits)
  from assms(1) show "rec = Some r \<Longrightarrow> 0 < row.price r \<Longrightarrow> cp = row.price r"
    unfolding resolve_price_def Let_def by (auto split: option.splits if_splits)
qed

lemma months_ahead_of_past:
  assumes "(ty, tm) \<le> (ny, nm)" "1 \<le> tm" "tm \<le> 12" "1 \<le> nm" "nm \<le> (12 :: nat)"
  shows "months_ahead_of (ty, tm, td) (ny, nm, nd) = 0"
proof -
  from assms(1) have "ty < ny \<or> ty = ny \<and> tm \<le> nm" by (auto simp: less_eq_prod_def)
  then have "(int ty - int ny) * 12 + (int tm - int nm) \<le> 0"
    using assms(2-5) by auto
  then show ?thesis unfolding months_ahead_of_def Let_def by simp
qed

lemma months_ahead_of_future:
  assumes "(ny, nm) < (ty, tm)" "1 \<le> tm" "tm \<le> 12" "1 \<le> nm" "nm \<le> (12 :: nat)"
  shows "1 \<le> months_ahead_of (ty, tm, td) (ny, nm, nd)"
proof -
  from assms(1) have "ny < ty \<or> ny = ty \<and> nm < tm" by (auto simp: less_prod_def)
  then have "1 \<le> (int ty - int ny) * 12 + (int tm - int nm)"
    using assms(2-5) by auto
  then show ?thesis unfolding months_ahead_of_def Let_def by simp
qed

lemma months_ahead_of_nonneg: "0 \<le> months_ahead_of target now"
  unfolding months_ahead_of_def Let_def by simp

lemmas predict_simps = predict_def month_to_date_def find_recent_price_def candidates_for_def
  matches_def select_record_def sort_reverse_def resolve_price_def base_map_def or_empty_def
  simple_predict_def round2_def round_half_even_def volatility_def low_vol_def med_vol_def
  high_vol_def

text \<open>
  C4. With \<open>months_ahead = 0\<close> the predictor makes no step of the walk and multiplies by
  \<open>1 + 0.01 * 0\<close>, so it returns the current price rounded to two decimals. A request
  whose target month is at or before the current month has \<open>months_ahead = 0\<close>, and its
  response has \<open>predictedPrice = currentPrice\<close>.
\<close>

theorem past_month_keeps_current_price:
  assumes "predict MOCK_DATA (ny, nm, nd) u zs req = Inr resp"
    and "month_to_date (PredictRequest.month req) = Inr (ty, tm, td)"
    and "(ty, tm) \<le> (ny, nm)"
    and "1 \<le> nm" and "nm \<le> 12"
  shows "simple_predict zs p 0 c = round2 p
       \<and> months_ahead_of (ty, tm, td) (ny, nm, nd) = 0
       \<and> predictedPrice resp = currentPrice resp"
proof -
  from month_to_date_Inr [OF assms(2)] have tm: "1 \<le> tm" "tm \<le> 12" by simp_all
  have m0: "months_ahead_of (ty, tm, td) (ny, nm, nd) = 0"
    using assms(3) tm assms(4,5) by (rule months_ahead_of_past)
  from assms(1) obtain target rec cp un me where
    t: "month_to_date (PredictRequest.month req) = Inr target"
    and c: "currentPrice resp = round2 cp"
    and p: "predictedPrice resp
       = round2 (simple_predict zs cp (months_ahead_of target (ny, nm, nd))
                   (PredictRequest.crop req))"
    by (rule predict_Inr)
  from t assms(2) have "target = (ty, tm, td)" by simp
  then have "predictedPrice resp = round2 (round2 cp)"
    using p m0 by (simp add: simple_predict_zero)
  then have "predictedPrice resp = currentPrice resp" using c by (simp add: round2_idem)
  then show ?thesis using m0 by (simp add: simple_predict_zero)
qed

theorem past_month_keeps_current_price_witness:
  "predict [] (2025, 12, 4) 25 (\<lambda>k. 3)
     \<lparr>PredictRequest.state = ''X'', district = None, market = None, crop = ''Tomato'',
      month = ''2025-11''\<rparr>
   = Inr \<lparr>PredictResponse.state = ''X'', district = None, market = None, crop = ''Tomato'',
          month = ''2025-11'', unit = ''kg'', currentPrice = 18, predictedPrice = 18,
          method_tag = ''synthetic''\<rparr>
   \<and> predictedPrice \<lparr>PredictResponse.state = ''X'', district = None, market = None,
          crop = ''Tomato'', month = ''2025-11'', unit = ''kg'', currentPrice = 18,
          predictedPrice = 18, method_tag = ''synthetic''\<rparr>
     = currentPrice \<lparr>PredictResponse.state = ''X'', district = None, market = None,
          crop = ''Tomato'', month = ''2025-11'', unit = ''kg'', currentPrice = 18,
          predictedPrice = 18, method_tag = ''synthetic''\<rparr>"
proof -
  let ?req = "\<lparr>PredictRequest.state = ''X'', district = None, market = None, crop = ''Tomato'',
      month = ''2025-11''\<rparr>"
  let ?resp = "\<lparr>PredictResponse.state = ''X'', district = None, market = None, crop = ''Tomato'',
          month = ''2025-11'', unit = ''kg'', currentPrice = 18, predictedPrice = 18,
          method_tag = ''synthetic''\<rparr>"
  have h1: "predict [] (2025, 12, 4) 25 (\<lambda>k. 3) ?req = Inr ?resp"
    by (simp add: predict_simps strptime_simps lower_simps)
  have h2: "month_to_date (PredictRequest.month ?req) = Inr (2025, 11, 1)"
    by (simp add: month_to_date_def strptime_simps)
  have h3: "((2025, 11) :: nat \<times> nat) \<le> (2025, 12)" by (simp add: less_eq_prod_def)
  have "predictedPrice ?resp = currentPrice ?resp"
    using past_month_keeps_current_price [OF h1 h2 h3] by simp
  then show ?thesis using h1 by simp
qed

text \<open>
  C1, as amended. In every response both prices are at least 0, and the predicted price is
  positive whenever the current price is. On the synthetic branch the current price is at
  least 10; on the mock-data branch both prices are at least 0.01 when the record's price
  exceeds 0.005; and the predicted price is at least 0.01 whenever the target month is
  after the current month, by the floor of the walk. (\<open>u\<close> is a draw of
  \<open>random.uniform(10, 40)\<close>.)
\<close>

theorem prices_nonnegative:
  assumes "predict MOCK_DATA (ny, nm, nd) u zs req = Inr resp" and "10 \<le> u"
  shows "0 \<le> currentPrice resp \<and> 0 \<le> predictedPrice resp
       \<and> (0 < currentPrice resp \<longrightarrow> 0 < predictedPrice resp)
       \<and> (method_tag resp = ''synthetic'' \<longrightarrow> 10 \<le> currentPrice resp \<and> 0 < predictedPrice resp)
       \<and> (\<forall>r. find_recent_price MOCK_DATA (PredictRequest.state req)
                 (or_empty (PredictRequest.district req)) (PredictRequest.crop req)
                 (or_empty (PredictRequest.market req)) = Inr (Some r)
               \<and> 0.005 < row.price r
               \<longrightarrow> 0.01 \<le> currentPrice resp \<and> 0.01 \<le> predictedPrice resp)
       \<and> (\<forall>ty tm td. month_to_date (PredictRequest.month req) = Inr (ty, tm, td)
               \<and> (ny, nm) < (ty, tm) \<and> 1 \<le> nm \<and> nm \<le> 12
               \<longrightarrow> 0.01 \<le> predictedPrice resp)"
proof -
  from assms(1) obtain target rec cp un me where
    t: "month_to_date (PredictRequest.month req) = Inr target"
    and f: "find_recent_price MOCK_DATA (PredictRequest.state req)
       (or_empty (PredictRequest.district req)) (PredictRequest.crop req)
       (or_empty (PredictRequest.market req)) = Inr rec"
    and rp: "resolve_price u (PredictRequest.crop req) rec = (cp, un, me)"
    and c: "currentPrice resp = round2 cp"
    and p: "predictedPrice resp
       = round2 (simple_predict zs cp (months_ahead_of target (ny, nm, nd))
                   (PredictRequest.crop req))"
    and me: "method_tag resp = me"
    by (rule predict_Inr)
  let ?m = "months_ahead_of target (ny, nm, nd)"
  have cp: "0 < cp" using rp assms(2) by (rule resolve_price_props)
  have c0: "0 \<le> currentPrice resp" unfolding c using cp by (intro round2_nonneg) simp
  have ahead: "0.01 \<le> predictedPrice resp" if "1 \<le> ?m"
  proof -
    have "0.01 \<le> simple_predict zs cp ?m (PredictRequest.crop req)"
      using that by (rule simple_predict_ahead)
    then have "0.005 < simple_predict zs cp ?m (PredictRequest.crop req)" by simp
    then show ?thesis unfolding p by (rule round2_ge_cent)
  qed
  have same: "predictedPrice resp = currentPrice resp" if "?m = 0"
    unfolding p c that by (simp only: simple_predict_zero round2_idem)
  have cases: "?m = 0 \<or> 1 \<le> ?m" using months_ahead_of_nonneg [of target "(ny, nm, nd)"] by linarith
  have p0: "0 \<le> predictedPrice resp"
    using cases
  proof
    assume "?m = 0"
    then show ?thesis using same c0 by simp
  next
    assume "1 \<le> ?m"
    then have "0.01 \<le> predictedPrice resp" by (rule ahead)
    then show ?thesis by simp
  qed
  have pos: "0 < predictedPrice resp" if cpos: "0 < currentPrice resp"
    using cases
  proof
    assume "?m = 0"
    then show ?thesis using same cpos by simp
  next
    assume "1 \<le> ?m"
    then have "0.01 \<le> predictedPrice resp" by (rule ahead)
    then show ?thesis by simp
  qed
  have big: "0.01 \<le> currentPrice resp \<and> 0.01 \<le> predictedPrice resp" if "0.005 < cp"
  proof -
    have cur: "0.01 \<le> currentPrice resp" unfolding c using that by (rule round2_ge_cent)
    have "0.01 \<le> predictedPrice resp"
      using cases
    proof
      assume "?m = 0"
      then show ?thesis using same cur by simp
    next
      assume "1 \<le> ?m"
      then show ?thesis by (rule ahead)
    qed
    with cur show ?thesis by (rule conjI)
  qed
  have syn: "10 \<le> currentPrice resp \<and> 0 < predictedPrice resp" if "method_tag resp = ''synthetic''"
  proof -
    have ms: "me = ''synthetic''" using that unfolding me .
    have "10 \<le> cp" using rp assms(2) ms by (rule resolve_price_props(2))
    then have "10 \<le> currentPrice resp" unfolding c by (rule round2_ge_ten)
    moreover from this have "0 < currentPrice resp" by simp
    then have "0 < predictedPrice resp" by (rule pos)
    ultimately show ?thesis by (rule conjI)
  qed
  have mock: "0.01 \<le> currentPrice resp \<and> 0.01 \<le> predictedPrice resp"
    if "find_recent_price MOCK_DATA (PredictRequest.state req)
          (or_empty (PredictRequest.district req)) (PredictRequest.crop req)
          (or_empty (PredictRequest.market req)) = Inr (Some r)" "0.005 < row.price r" for r
  proof -
    from that(1) f have "rec = Some r" by simp
    moreover have "0 < row.price r" using that(2) by simp
    ultimately have "cp = row.price r" using resolve_price_props(3) [OF rp assms(2)] by simp
    then have "0.005 < cp" using that(2) by (simp only:)
    then show ?thesis by (rule big)
  qed
  have fut: "0.01 \<le> predictedPrice resp"
    if "month_to_date (PredictRequest.month req) = Inr (ty, tm, td)" "(ny, nm) < (ty, tm)"
       "1 \<le> nm" "nm \<le> 12" for ty tm td
  proof -
    from month_to_date_Inr [OF that(1)] have "1 \<le> tm" "tm \<le> 12" by simp_all
    then have "1 \<le> months_ahead_of (ty, tm, td) (ny, nm, nd)"
      using that(2-4) by (intro months_ahead_of_future)
    moreover have "target = (ty, tm, td)" using t that(1) by simp
    ultimately have "1 \<le> ?m" by (simp only:)
    then show ?thesis by (rule ahead)
  qed
  show ?thesis
  proof (intro conjI allI impI)
    show "0 \<le> currentPrice resp" by (rule c0)
    show "0 \<le> predictedPrice resp" by (rule p0)
    show "0 < predictedPrice resp" if "0 < currentPrice resp" using that by (rule pos)
    show "10 \<le> currentPrice resp" if "method_tag resp = ''synthetic''"
      using syn [OF that] by (rule conjunct1)
    show "0 < predictedPrice resp" if "method_tag resp = ''synthetic''"
      using syn [OF that] by (rule conjunct2)
    show "0.01 \<le> currentPrice resp"
      if "find_recent_price MOCK_DATA (PredictRequest.state req)
            (or_empty (PredictRequest.district req)) (PredictRequest.crop req)
            (or_empty (PredictRequest.market req)) = Inr (Some r) \<and> 0.005 < row.price r" for r
      using mock [of r] that by blast
    show "0.01 \<le> predictedPrice resp"
      if "find_recent_price MOCK_DATA (PredictRequest.state req)
            (or_empty (PredictRequest.district req)) (PredictRequest.crop req)
            (or_empty (PredictRequest.market req)) = Inr (Some r) \<and> 0.005 < row.price r" for r
      using mock [of r] that by blast
    show "0.01 \<le> predictedPrice resp"
      if "month_to_date (PredictRequest.month req) = Inr (ty, tm, td)
            \<and> (ny, nm) < (ty, tm) \<and> 1 \<le> nm \<and> nm \<le> 12" for ty tm td
      using fut [of ty tm td] that by blast
  qed
qed



text \<open>
  C1 as stated fails: a dataset price of 0.001 passes the guard \<open>price > 0\<close>, and for the
  current month the response carries \<open>currentPrice = round(0.001, 2) = 0.0\<close> and the same
  predicted price.
\<close>

theorem current_price_zero_counterexample:
  "predict
     [\<lparr>row.state = ''X'', district = [], market = [], crop = ''Rice'', date = ''2025-03-01'',
       price = 0.001, unit = ''kg''\<rparr>]
     (2025, 12, 4) 25 (\<lambda>k. 0)
     \<lparr>PredictRequest.state = ''X'', district = None, market = None, crop = ''Rice'',
      month = ''2025-12''\<rparr>
   = Inr \<lparr>PredictResponse.state = ''X'', district = None, market = None, crop = ''Rice'',
          month = ''2025-12'', unit = ''kg'', currentPrice = 0, predictedPrice = 0,
          method_tag = ''mock-data''\<rparr>"
  by (simp add: predict_simps strptime_simps lower_simps)

theorem prices_nonnegative_witness:
  "predict
     [\<lparr>row.state = ''X'', district = [], market = [], crop = ''Rice'', date = ''2025-03-01'',
       price = 0.001, unit = ''kg''\<rparr>]
     (2025, 11, 4) 25 (\<lambda>k. - 100)
     \<lparr>PredictRequest.state = ''X'', district = None, market = None, crop = ''Rice'',
      month = ''2025-12''\<rparr>
   = Inr \<lparr>PredictResponse.state = ''X'', district = None, market = None, crop = ''Rice'',
          month = ''2025-12'', unit = ''kg'', currentPrice = 0, predictedPrice = 0.01,
          method_tag = ''mock-data''\<rparr>
   \<and> 0.01 \<le> predictedPrice \<lparr>PredictResponse.state = ''X'', district = None,
          market = None, crop = ''Rice'', month = ''2025-12'', unit = ''kg'', currentPrice = 0,
          predictedPrice = 0.01, method_tag = ''mock-data''\<rparr>"
proof -
  let ?D = "[\<lparr>row.state = ''X'', district = [], market = [], crop = ''Rice'',
       date = ''2025-03-01'', price = 0.001, unit = ''kg''\<rparr>]"
  let ?req = "\<lparr>PredictRequest.state = ''X'', district = None, market = None, crop = ''Rice'',
      month = ''2025-12''\<rparr>"
  let ?resp = "\<lparr>PredictResponse.state = ''X'', district = None, market = None, crop = ''Rice'',
          month = ''2025-12'', unit = ''kg'', currentPrice = 0, predictedPrice = 0.01,
          method_tag = ''mock-data''\<rparr>"
  have h1: "predict ?D (2025, 11, 4) 25 (\<lambda>k. - 100) ?req = Inr ?resp"
    by (simp add: predict_simps strptime_simps lower_simps)
  have h2: "(10 :: real) \<le> 25" by simp
  have h3: "month_to_date (PredictRequest.month ?req) = Inr (2025, 12, 1)"
    by (simp add: month_to_date_def strptime_simps)
  have h4: "((2025, 11) :: nat \<times> nat) < (2025, 12)" by (simp add: less_prod_def)
  have "0.01 \<le> predictedPrice ?resp"
    using prices_nonnegative [OF h1 h2] h3 h4 by simp
  then show ?thesis using h1 by simp
qed

subsection \<open>Validation of the month\<close>

lemma digit_val_le9: "digit_val c = Some x \<Longrightarrow> x \<le> 9"
  unfolding digit_val_def digit_table_def by (auto split: if_splits)

lemma digit_val_dash: "digit_val (CHR ''-'') = None"
  and digit_val_space: "digit_val (CHR '' '') = None"
  and digit_val_zero: "digit_val (CHR ''0'') = Some 0"
  and digit_val_one: "digit_val (CHR ''1'') = Some 1"
  by (simp_all add: digit_val_def digit_table_def)

lemma year_value_Some_iff:
  "year_value a b c d = Some y \<longleftrightarrow>
     (\<exists>w x y' z. digit_val a = Some w \<and> digit_val b = Some x \<and> digit_val c = Some y'
        \<and> digit_val d = Some z \<and> y = 1000 * w + 100 * x + 10 * y' + z)"
  by (auto simp: year_value_def split: option.splits)

lemma group_Y_elem:
  "(y, r) \<in> set (group_Y t)
     \<longleftrightarrow> (\<exists>a b c d. t = a # b # c # d # r \<and> year_value a b c d = Some y)"
proof -
  have *: "(y, r) \<in> set (group_Y t) \<longleftrightarrow>
    (\<exists>hi r1. (hi, r1) \<in> set (two_digits 0 9 0 9 t)
       \<and> (\<exists>lo r'. (lo, r') \<in> set (two_digits 0 9 0 9 r1) \<and> (y, r) \<in> set [(100 * hi + lo, r')]))"
    unfolding group_Y_def
    by (simp only: set_bind_iff split_paired_Ex prod.case)
  show ?thesis
  proof
    assume "(y, r) \<in> set (group_Y t)"
    then obtain hi r1 lo where
      "(hi, r1) \<in> set (two_digits 0 9 0 9 t)" "(lo, r) \<in> set (two_digits 0 9 0 9 r1)"
      "y = 100 * hi + lo"
      unfolding * by auto
    then obtain a b c d w x y' z where
      "t = a # b # r1" "digit_val a = Some w" "digit_val b = Some x" "hi = 10 * w + x"
      "r1 = c # d # r" "digit_val c = Some y'" "digit_val d = Some z" "lo = 10 * y' + z"
      unfolding two_digits_elem by blast
    with \<open>y = 100 * hi + lo\<close>
    have "t = a # b # c # d # r \<and> year_value a b c d = Some y"
      by (simp add: year_value_Some_iff)
    then show "\<exists>a b c d. t = a # b # c # d # r \<and> year_value a b c d = Some y" by blast
  next
    assume "\<exists>a b c d. t = a # b # c # d # r \<and> year_value a b c d = Some y"
    then obtain a b c d w x y' z where
      t: "t = a # b # c # d # r" and
      dv: "digit_val a = Some w" "digit_val b = Some x" "digit_val c = Some y'"
          "digit_val d = Some z" and y: "y = 1000 * w + 100 * x + 10 * y' + z"
      unfolding year_value_Some_iff by blast
    from dv have le: "w \<le> 9" "x \<le> 9" "y' \<le> 9" "z \<le> 9" by (auto dest: digit_val_le9)
    have 1: "(10 * w + x, c # d # r) \<in> set (two_digits 0 9 0 9 t)"
      unfolding two_digits_elem using t dv le by simp
    have 2: "(10 * y' + z, r) \<in> set (two_digits 0 9 0 9 (c # d # r))"
      unfolding two_digits_elem using dv le by simp
    have 3: "(y, r) \<in> set [(100 * (10 * w + x) + (10 * y' + z), r)]" using y by simp
    from 1 2 3 show "(y, r) \<in> set (group_Y t)" unfolding * by blast
  qed
qed

lemma append3_eq: "s @ [x, y, z] = L \<longleftrightarrow> (\<exists>l. rev L = z # y # x # l \<and> s = rev l)"
proof
  assume "s @ [x, y, z] = L"
  then have "rev L = z # y # x # rev s \<and> s = rev (rev s)" by auto
  then show "\<exists>l. rev L = z # y # x # l \<and> s = rev l" by blast
next
  assume "\<exists>l. rev L = z # y # x # l \<and> s = rev l"
  then obtain l where "rev L = z # y # x # l" "s = rev l" by blast
  then have "rev (rev L) = rev (z # y # x # l)" by simp
  then show "s @ [x, y, z] = L" using \<open>s = rev l\<close> by simp
qed

lemma group_m_elem:
  "(m, r) \<in> set (group_m s) \<longleftrightarrow>
     (\<exists>ms. s = ms @ r \<and> month_value ms = Some m)"
proof
  assume "(m, r) \<in> set (group_m s)"
  then consider
    (two) f g x y where "s = f # g # r" "digit_val f = Some x" "digit_val g = Some y"
       "(x = 1 \<and> y \<le> 2) \<or> (x = 0 \<and> 1 \<le> y)" "m = 10 * x + y"
    | (one) f x where "s = f # r" "digit_val f = Some x" "1 \<le> x" "m = x"
    unfolding group_m_def by (auto simp: two_digits_elem one_digit_elem)
  then show "\<exists>ms. s = ms @ r \<and> month_value ms = Some m"
  proof cases
    case two
    then have "s = [f, g] @ r \<and> month_value [f, g] = Some m"
      by (auto simp: month_value_def)
    then show ?thesis by blast
  next
    case one
    then have "s = [f] @ r \<and> month_value [f] = Some m"
      by (auto simp: month_value_def)
    then show ?thesis by blast
  qed
next
  assume "\<exists>ms. s = ms @ r \<and> month_value ms = Some m"
  then obtain ms where ms: "s = ms @ r" "month_value ms = Some m" by blast
  from ms(2) consider
    (one) f x where "ms = [f]" "digit_val f = Some x" "1 \<le> x" "m = x"
    | (two) f g x y where "ms = [f, g]" "digit_val f = Some x" "digit_val g = Some y"
       "(x = 1 \<and> y \<le> 2) \<or> (x = 0 \<and> 1 \<le> y)" "m = 10 * x + y"
    unfolding month_value_def by (auto split: list.splits option.splits if_splits)
  then show "(m, r) \<in> set (group_m s)"
  proof cases
    case one
    then have "(m, r) \<in> set (one_digit 1 9 s)"
      unfolding one_digit_elem using ms(1) digit_val_le9 by auto
    then show ?thesis by (simp add: group_m_def)
  next
    case two
    then have "(m, r) \<in> set (two_digits 1 1 0 2 s) \<or> (m, r) \<in> set (two_digits 0 0 1 9 s)"
      unfolding two_digits_elem using ms(1) digit_val_le9 [of g y] by auto
    then show ?thesis by (auto simp add: group_m_def)
  qed
qed

lemma month_value_cases:
  assumes "month_value ms = Some m"
  obtains (one) f where "ms = [f]" "digit_val f = Some m" "1 \<le> m" "m \<le> 9"
    | (ten) f g y where "ms = [f, g]" "digit_val f = Some 1" "digit_val g = Some y" "y \<le> 2"
        "m = 10 + y"
    | (pad) f g where "ms = [f, g]" "digit_val f = Some 0" "digit_val g = Some m" "1 \<le> m"
        "m \<le> 9"
proof -
  from assms consider
    (a) f x where "ms = [f]" "digit_val f = Some x" "1 \<le> x" "m = x"
    | (b) f g x y where "ms = [f, g]" "digit_val f = Some x" "digit_val g = Some y"
       "(x = 1 \<and> y \<le> 2) \<or> (x = 0 \<and> 1 \<le> y)" "m = 10 * x + y"
    unfolding month_value_def by (auto split: list.splits option.splits if_splits)
  then show ?thesis
  proof cases
    case a
    then show ?thesis using one digit_val_le9 [of f x] by simp
  next
    case b
    from b(4) show ?thesis
    proof
      assume "x = 1 \<and> y \<le> 2"
      then show ?thesis using b ten by simp
    next
      assume "x = 0 \<and> 1 \<le> y"
      then show ?thesis using b pad digit_val_le9 [of g y] by simp
    qed
  qed
qed

lemma accepted_month_parse:
  assumes "year_value a b c d = Some y" "1 \<le> y" "month_value ms = Some m"
  shows "strptime (a # b # c # d # CHR ''-'' # ms @ ''-01'') = Inr (y, m, 1)"
proof -
  from assms(1) obtain w x y' z where
    dv: "digit_val a = Some w" "digit_val b = Some x" "digit_val c = Some y'"
        "digit_val d = Some z" and y: "y = 1000 * w + 100 * x + 10 * y' + z"
    unfolding year_value_Some_iff by blast
  from dv have le: "w \<le> 9" "x \<le> 9" "y' \<le> 9" "z \<le> 9" by (auto dest: digit_val_le9)
  have dim: "\<not> days_in_month y m < 1" by (simp add: days_in_month_def)
  have y1: "\<not> y < 1" using assms(2) by simp
  have Y: "group_Y (a # b # c # d # r) = [(y, r)]" for r
    using dv le y by (simp add: group_Y_def two_digits_def List.bind_def)
  have D: "group_d ''01'' = [(1, [])]"
    by (simp add: group_d_def two_digits_def literal_def List.bind_def digit_val_zero
        digit_val_one)
  from assms(3) show ?thesis
  proof (cases rule: month_value_cases)
    case (one f)
    then have M: "group_m (f # ''-01'') = [(m, ''-01'')]"
      by (simp add: group_m_def two_digits_def List.bind_def digit_val_dash)
    show ?thesis
      unfolding strptime_def format_regex_match_def one(1)
      using dim y1 by (simp add: Y M D literal_def List.bind_def)
  next
    case (ten f g y2)
    then have M: "group_m (f # g # ''-01'') = [(m, ''-01''), (1, g # ''-01'')]"
      by (simp add: group_m_def two_digits_def List.bind_def digit_val_dash)
    have g: "g \<noteq> CHR ''-''" using ten(3) digit_val_dash by auto
    show ?thesis
      unfolding strptime_def format_regex_match_def ten(1)
      using dim y1 g by (simp add: Y M D literal_def List.bind_def)
  next
    case (pad f g)
    then have M: "group_m (f # g # ''-01'') = [(m, ''-01'')]"
      by (simp add: group_m_def two_digits_def List.bind_def digit_val_dash)
    show ?thesis
      unfolding strptime_def format_regex_match_def pad(1)
      using dim y1 by (simp add: Y M D literal_def List.bind_def)
  qed
qed

lemma group_d_end:
  assumes "(d, []) \<in> set (group_d r4)"
  shows "(\<exists>p q. r4 = [p, q]) \<or> (\<exists>p. r4 = [p]) \<or> (\<exists>p. r4 = [CHR '' '', p])"
  using assms unfolding group_d_def
  by (auto simp: two_digits_elem one_digit_elem set_bind_iff literal_elem)

lemma month_value_last:
  assumes "month_value ms = Some m"
  shows "\<exists>ms' l x. ms = ms' @ [l] \<and> digit_val l = Some x"
  using assms
proof (cases rule: month_value_cases)
  case (one f)
  then have "ms = [] @ [f] \<and> digit_val f = Some m" by simp
  then show ?thesis by blast
next
  case (ten f g y)
  then have "ms = [f] @ [g] \<and> digit_val g = Some y" by simp
  then show ?thesis by blast
next
  case (pad f g)
  then have "ms = [f] @ [g] \<and> digit_val g = Some m" by simp
  then show ?thesis by blast
qed

lemma append_same_length:
  assumes "xs @ us = ys @ vs" "length us = length vs"
  shows "xs = ys \<and> us = vs"
  using assms by (simp add: append_eq_append_conv)

lemma parse_accepted_month:
  assumes "strptime (s @ ''-01'') = Inr (y, m, d)"
  shows "\<exists>a b c d' ms. s = a # b # c # d' # CHR ''-'' # ms \<and> year_value a b c d' = Some y
           \<and> 1 \<le> y \<and> month_value ms = Some m"
proof -
  from strptime_Inr [OF assms]
  have mem: "((y, m, d), []) \<in> set (format_regex_match (s @ ''-01''))" and y1: "1 \<le> y"
    by simp_all
  from mem obtain r2 r4 where
    gy: "(y, CHR ''-'' # r2) \<in> set (group_Y (s @ ''-01''))" and
    gm: "(m, CHR ''-'' # r4) \<in> set (group_m r2)" and
    gd: "(d, []) \<in> set (group_d r4)"
    unfolding format_regex_match_elem by blast
  from gy obtain a b c d' where
    t: "s @ ''-01'' = a # b # c # d' # CHR ''-'' # r2" and yv: "year_value a b c d' = Some y"
    unfolding group_Y_elem by blast
  from gm obtain ms where r2: "r2 = ms @ CHR ''-'' # r4" and mv: "month_value ms = Some m"
    unfolding group_m_elem by blast
  let ?X = "a # b # c # d' # CHR ''-'' # ms"
  from gd consider (two) p q where "r4 = [p, q]" | (one) p where "r4 = [p]"
    | (sp) p where "r4 = [CHR '' '', p]"
    using group_d_end by blast
  then have "s = ?X"
  proof cases
    case two
    have "s @ [CHR ''-'', CHR ''0'', CHR ''1''] = ?X @ [CHR ''-'', p, q]"
      using t r2 two by simp
    then show ?thesis by (rule append_same_length [THEN conjunct1]) simp
  next
    case one
    from month_value_last [OF mv] obtain ms' l x where
      ms: "ms = ms' @ [l]" and l: "digit_val l = Some x" by blast
    have "s @ [CHR ''-'', CHR ''0'', CHR ''1''] = (a # b # c # d' # CHR ''-'' # ms') @ [l, CHR ''-'', p]"
      using t r2 one ms by simp
    then have "[CHR ''-'', CHR ''0'', CHR ''1''] = [l, CHR ''-'', p]"
      by (rule append_same_length [THEN conjunct2]) simp
    then have "l = CHR ''-''" by simp
    then show ?thesis using l digit_val_dash by simp
  next
    case sp
    have "s @ [CHR ''-'', CHR ''0'', CHR ''1''] = ?X @ [CHR ''-'', CHR '' '', p]"
      using t r2 sp by simp
    then have "[CHR ''-'', CHR ''0'', CHR ''1''] = [CHR ''-'', CHR '' '', p]"
      by (rule append_same_length [THEN conjunct2]) simp
    then show ?thesis by simp
  qed
  then show ?thesis using yv y1 mv by blast
qed

lemma month_to_date_iff:
  "(\<exists>dt. month_to_date s = Inr dt) \<longleftrightarrow> accepted_month s"
proof
  assume "\<exists>dt. month_to_date s = Inr dt"
  then obtain y m d where "strptime (s @ ''-01'') = Inr (y, m, d)"
    unfolding month_to_date_def by (auto split: sum.splits)
  from parse_accepted_month [OF this] show "accepted_month s"
    by (auto simp: accepted_month_def)
next
  assume "accepted_month s"
  then obtain a b c d ms y m where
    s: "s = a # b # c # d # CHR ''-'' # ms" and
    "year_value a b c d = Some y" "1 \<le> y" "month_value ms = Some m"
    unfolding accepted_month_def by (auto split: list.splits option.splits)
  then have "strptime (s @ ''-01'') = Inr (y, m, 1)"
    using accepted_month_parse [of a b c d y ms m] by simp
  then show "\<exists>dt. month_to_date s = Inr dt" by (simp add: month_to_date_def)
qed

lemma month_to_date_cases: "month_to_date s = Inl ValueError \<or> (\<exists>dt. month_to_date s = Inr dt)"
  unfolding month_to_date_def by (auto split: sum.splits)

lemma digit_val_zero_iff: "digit_val c = Some 0 \<longleftrightarrow> c = CHR ''0''"
  unfolding digit_val_def digit_table_def by (auto split: if_splits)

lemma year_value_zero_iff:
  assumes "year_value a b c d = Some y"
  shows "y = 0 \<longleftrightarrow> [a, b, c, d] = ''0000''"
proof -
  from assms obtain w x y' z where
    dv: "digit_val a = Some w" "digit_val b = Some x" "digit_val c = Some y'"
        "digit_val d = Some z" and y: "y = 1000 * w + 100 * x + 10 * y' + z"
    unfolding year_value_Some_iff by blast
  have "y = 0 \<longleftrightarrow> w = 0 \<and> x = 0 \<and> y' = 0 \<and> z = 0" using y by simp
  also have "\<dots> \<longleftrightarrow> a = CHR ''0'' \<and> b = CHR ''0'' \<and> c = CHR ''0'' \<and> d = CHR ''0''"
  proof -
    have "w = 0 \<longleftrightarrow> a = CHR ''0''" using dv(1) digit_val_zero_iff [of a] by auto
    moreover have "x = 0 \<longleftrightarrow> b = CHR ''0''" using dv(2) digit_val_zero_iff [of b] by auto
    moreover have "y' = 0 \<longleftrightarrow> c = CHR ''0''" using dv(3) digit_val_zero_iff [of c] by auto
    moreover have "z = 0 \<longleftrightarrow> d = CHR ''0''" using dv(4) digit_val_zero_iff [of d] by auto
    ultimately show ?thesis by (simp only:)
  qed
  finally show ?thesis by simp
qed

lemmas accepted_simps = accepted_month_def is_YYYY_MM_def year_value_def month_value_def
  digit_val_def digit_table_def

text \<open>
  C8, as amended. The endpoint answers 400 exactly when the month is not a four-digit year
  other than 0000, a hyphen and a month number from 1 to 12 written with one or two digits;
  otherwise it answers with a response. Among the strings in YYYY-MM format all are
  accepted but those of year 0000.
\<close>

theorem month_validation:
  "(predict MOCK_DATA now u zs req = Inl (HTTPException 400 ''month must be in YYYY-MM format''))
     = (\<not> accepted_month (PredictRequest.month req))
   \<and> (\<exists>resp. predict MOCK_DATA now u zs req = Inr resp)
     = accepted_month (PredictRequest.month req)
   \<and> (is_YYYY_MM s \<longrightarrow> accepted_month s = (take 4 s \<noteq> ''0000''))"
proof (intro conjI impI)
  show "(predict MOCK_DATA now u zs req
           = Inl (HTTPException 400 ''month must be in YYYY-MM format''))
        = (\<not> accepted_month (PredictRequest.month req))"
  proof (cases "accepted_month (PredictRequest.month req)")
    case True
    then obtain dt where "month_to_date (PredictRequest.month req) = Inr dt"
      using month_to_date_iff by blast
    from predict_total [OF this] obtain resp where "predict MOCK_DATA now u zs req = Inr resp"
      by blast
    then show ?thesis using True by simp
  next
    case False
    then have "month_to_date (PredictRequest.month req) = Inl ValueError"
      using month_to_date_iff month_to_date_cases by blast
    then show ?thesis using False by (simp add: predict_def)
  qed
  show "(\<exists>resp. predict MOCK_DATA now u zs req = Inr resp)
        = accepted_month (PredictRequest.month req)"
  proof (cases "accepted_month (PredictRequest.month req)")
    case True
    then obtain dt where "month_to_date (PredictRequest.month req) = Inr dt"
      using month_to_date_iff by blast
    from predict_total [OF this] show ?thesis using True by simp
  next
    case False
    then have "month_to_date (PredictRequest.month req) = Inl ValueError"
      using month_to_date_iff month_to_date_cases by blast
    then show ?thesis using False by (simp add: predict_def)
  qed
  show "accepted_month s = (take 4 s \<noteq> ''0000'')" if "is_YYYY_MM s"
  proof -
    from that obtain a b c d ms y where
      s: "s = a # b # c # d # CHR ''-'' # ms" and yv: "year_value a b c d = Some y"
      and mv: "month_value ms \<noteq> None"
      unfolding is_YYYY_MM_def by (auto split: list.splits)
    have "accepted_month s = (1 \<le> y)" using s yv mv by (simp add: accepted_month_def)
    also have "\<dots> = (y \<noteq> 0)" by auto
    also have "\<dots> = ([a, b, c, d] \<noteq> ''0000'')" using year_value_zero_iff [OF yv] by simp
    also have "\<dots> = (take 4 s \<noteq> ''0000'')" using s by simp
    finally show ?thesis .
  qed
qed

text \<open>
  C8 as stated fails in both directions: \<open>2025-1\<close> is not in YYYY-MM format and is
  answered with a response, and \<open>0000-01\<close> is in YYYY-MM format and is answered with 400.
\<close>

theorem month_validation_counterexample:
  "\<not> is_YYYY_MM ''2025-1''
   \<and> predict [] (2025, 12, 4) 25 (\<lambda>k. 0)
        \<lparr>PredictRequest.state = ''X'', district = None, market = None, crop = ''Tomato'',
         month = ''2025-1''\<rparr>
      = Inr \<lparr>PredictResponse.state = ''X'', district = None, market = None, crop = ''Tomato'',
          month = ''2025-1'', unit = ''kg'', currentPrice = 18, predictedPrice = 18,
          method_tag = ''synthetic''\<rparr>
   \<and> is_YYYY_MM ''0000-01''
   \<and> predict [] (2025, 12, 4) 25 (\<lambda>k. 0)
        \<lparr>PredictRequest.state = ''X'', district = None, market = None, crop = ''Tomato'',
         month = ''0000-01''\<rparr>
      = Inl (HTTPException 400 ''month must be in YYYY-MM format'')"
proof -
  have a: "\<not> is_YYYY_MM ''2025-1''" by (simp add: accepted_simps)
  have b: "predict [] (2025, 12, 4) 25 (\<lambda>k. 0)
        \<lparr>PredictRequest.state = ''X'', district = None, market = None, crop = ''Tomato'',
         month = ''2025-1''\<rparr>
      = Inr \<lparr>PredictResponse.state = ''X'', district = None, market = None, crop = ''Tomato'',
          month = ''2025-1'', unit = ''kg'', currentPrice = 18, predictedPrice = 18,
          method_tag = ''synthetic''\<rparr>"
    by (simp add: predict_simps strptime_simps lower_simps)
  have c: "is_YYYY_MM ''0000-01''" by (simp add: accepted_simps)
  have d: "predict [] (2025, 12, 4) 25 (\<lambda>k. 0)
        \<lparr>PredictRequest.state = ''X'', district = None, market = None, crop = ''Tomato'',
         month = ''0000-01''\<rparr>
      = Inl (HTTPException 400 ''month must be in YYYY-MM format'')"
    by (simp add: predict_def month_to_date_def strptime_simps)
  from a b c d show ?thesis by (intro conjI)
qed

theorem month_validation_witness:
  "predict [] (2025, 12, 4) 25 (\<lambda>k. 0)
     \<lparr>PredictRequest.state = ''X'', district = None, market = None, crop = ''Tomato'',
      month = ''2025-13''\<rparr> = Inl (HTTPException 400 ''month must be in YYYY-MM format'')
   \<and> predict [] (2025, 12, 4) 25 (\<lambda>k. 0)
     \<lparr>PredictRequest.state = ''X'', district = None, market = None, crop = ''Tomato'',
      month = ''December''\<rparr> = Inl (HTTPException 400 ''month must be in YYYY-MM format'')
   \<and> (\<exists>resp. predict [] (2025, 12, 4) 25 (\<lambda>k. 0)
     \<lparr>PredictRequest.state = ''X'', district = None, market = None, crop = ''Tomato'',
      month = ''2026-03''\<rparr> = Inr resp)
   \<and> is_YYYY_MM ''2026-03'' \<and> accepted_month ''2026-03''"
proof -
  have a: "\<not> accepted_month ''2025-13''" by (simp add: accepted_simps)
  have b: "\<not> accepted_month ''December''" by (simp add: accepted_simps)
  have c: "is_YYYY_MM ''2026-03''" by (simp add: accepted_simps)
  have d: "take 4 ''2026-03'' \<noteq> ''0000''" by simp
  have e: "accepted_month ''2026-03''"
    using month_validation [where s = "''2026-03''"] c d by blast
  show ?thesis
    using a b c e
      month_validation [of "[]" "(2025, 12, 4)" 25 "\<lambda>k. 0"
        "\<lparr>PredictRequest.state = ''X'', district = None, market = None, crop = ''Tomato'',
          month = ''2025-13''\<rparr>"]
      month_validation [of "[]" "(2025, 12, 4)" 25 "\<lambda>k. 0"
        "\<lparr>PredictRequest.state = ''X'', district = None, market = None, crop = ''Tomato'',
          month = ''December''\<rparr>"]
      month_validation [of "[]" "(2025, 12, 4)" 25 "\<lambda>k. 0"
        "\<lparr>PredictRequest.state = ''X'', district = None, market = None, crop = ''Tomato'',
          month = ''2026-03''\<rparr>"]
    by simp
qed

end
